theory Spec2Isabelle
  imports Main "HOL-Library.Char_ord" "HOL-Library.List_Lexorder" "HOL-Library.Sublist"
begin

section \<open>Data model (db\_setup.sql and the rows the workers read and write)\<close>

text \<open>
  UUIDs are natural numbers, timestamps are milliseconds (\<open>Date.now()\<close>, \<open>now()\<close>) as
  integers, SQL \<open>NULL\<close> and JavaScript \<open>null\<close> are \<open>None\<close>. The columns
  \<open>created_at\<close>/\<open>updated_at\<close> of the queue tables are never read by the workers and are
  left out. \<open>ORDER BY path\<close> is the lexicographic order on character lists.
\<close>

datatype job_kind = Discover | Migrate

datatype job_status = Running | Paused | Stopped | Completed | Failed

datatype scan_status = Queued | Claimed | Done | DirFailed

datatype file_status = Pending | Scanned | Migrated | FileFailed | InProgress

datatype log_status = LogPending | LogSuccess | LogFailed

record job =
  j_id :: nat
  j_kind :: job_kind
  j_status :: job_status
  j_note :: string
  j_created_at :: int
  j_worker_id :: "nat option"
  j_last_heartbeat :: "int option"
  j_ended_at :: "int option"

record progress_row =
  p_job_id :: nat
  total_bytes :: int
  total_files :: int
  scanned_dirs :: int
  migrated_files :: int
  failed_files :: int

record scan_row =
  sq_id :: nat
  sq_path :: string
  sq_parent_path :: "string option"
  sq_status :: scan_status
  sq_claimed_at :: "int option"

record file_row =
  f_id :: nat
  f_path :: string
  f_is_dir :: bool
  f_parent_path :: "string option"
  f_size :: "int option"
  f_mime_type :: "string option"
  f_bunny_url :: "string option"
  f_status :: file_status
  f_claimed_at :: "int option"
  f_claimed_by :: "nat option"

record log_row =
  l_id :: nat
  l_file_id :: nat
  l_job_id :: nat
  l_status :: log_status
  l_error_msg :: "string option"
  l_attempts :: nat
  l_bunny_path :: string
  l_supabase_path :: string
  l_time_taken :: int

text \<open>The error object of the store client and of the HTTP client: an optional
  \<open>code\<close> and a \<open>message\<close>.\<close>

record js_error =
  err_code :: "string option"
  err_message :: string

subsection \<open>The duplicate test of the insert helpers\<close>

text \<open>\<open>/duplicate|unique/i.test(error.message)\<close>: a case-insensitive search for either
  word anywhere in the message. Without the \<open>u\<close> flag only the ASCII letters fold.\<close>

definition upper_char :: "char \<Rightarrow> char" where
  "upper_char c =
     (if CHR ''a'' \<le> c \<and> c \<le> CHR ''z'' then char_of (of_char c - (32::nat)) else c)"

fun starts_with_ci :: "string \<Rightarrow> string \<Rightarrow> bool" where
  "starts_with_ci [] s = True"
| "starts_with_ci (p # ps) [] = False"
| "starts_with_ci (p # ps) (c # cs) = (upper_char p = upper_char c \<and> starts_with_ci ps cs)"

fun contains_ci :: "string \<Rightarrow> string \<Rightarrow> bool" where
  "contains_ci pat [] = starts_with_ci pat []"
| "contains_ci pat (c # cs) = (starts_with_ci pat (c # cs) \<or> contains_ci pat cs)"

definition duplicate_or_unique :: "string \<Rightarrow> bool" where
  "duplicate_or_unique msg = (contains_ci ''duplicate'' msg \<or> contains_ci ''unique'' msg)"

definition ignorable :: "js_error \<Rightarrow> bool" where
  "ignorable e = (err_code e = Some ''23505'' \<or> duplicate_or_unique (err_message e))"

section \<open>The store and the process state\<close>

text \<open>
  One record holds the five tables, the clock, the next fresh UUID, the module-level
  variables of discover-files.js (\<open>CURRENT_JOB\<close>, of which only the id is read, and
  \<open>HEARTBEAT_TIMER\<close>, the interval it was armed with), \<open>trace\<close>: the calls and
  pauses made so far, and \<open>faults\<close>: what the store client will answer on the coming
  round trips beyond what the tables decide (\<open>None\<close>, or nothing left: the statement
  runs; \<open>Some e\<close>: the client reports \<open>e\<close> and the statement has no effect).
\<close>

datatype event =
    Slept nat
  | Heartbeat nat
  | ReadJob nat
  | ClaimedDir "nat option"
  | ClaimedBatch "nat list"
  | Listed string
  | Transferred nat nat
  | MarkedJob job_status

record world =
  jobs :: "job list"
  progress :: "progress_row list"
  scan_queue :: "scan_row list"
  bunny_file_map :: "file_row list"
  migration_logs :: "log_row list"
  clock :: int
  next_id :: nat
  current_job :: "nat option"
  heartbeat_timer :: "nat option"
  faults :: "js_error option list"
  trace :: "event list"

type_synonym 'a outcome = "(js_error + 'a) \<times> world"

definition emit :: "event \<Rightarrow> world \<Rightarrow> world" where
  "emit ev w = w\<lparr>trace := trace w @ [ev]\<rparr>"

definition sleep :: "nat \<Rightarrow> world \<Rightarrow> world" where
  "sleep ms w = emit (Slept ms) (w\<lparr>clock := clock w + int ms\<rparr>)"

definition round_trip :: "world \<Rightarrow> js_error option \<times> world" where
  "round_trip w =
     (case faults w of [] \<Rightarrow> (None, w) | f # fs \<Rightarrow> (f, w\<lparr>faults := fs\<rparr>))"

definition unique_violation :: "string \<Rightarrow> js_error" where
  "unique_violation index_name =
     \<lparr>err_code = Some ''23505'',
      err_message = ''duplicate key value violates unique constraint '' @ index_name\<rparr>"

definition foreign_key_violation :: "string \<Rightarrow> js_error" where
  "foreign_key_violation constraint_name =
     \<lparr>err_code = Some ''23503'',
      err_message = ''insert or update on table violates foreign key constraint '' @ constraint_name\<rparr>"

definition no_rows :: js_error where
  "no_rows = \<lparr>err_code = Some ''PGRST116'',
              err_message = ''JSON object requested, multiple (or no) rows returned''\<rparr>"

subsection \<open>Insert-only writes (discover-files.js, insertDir and insertFileOrDir)\<close>

text \<open>The \<open>INSERT\<close> the store runs, with the unique index \<open>uniq_scan_queue_path\<close>:
  it answers with the error, if any.\<close>

definition insert_scan_queue :: "string \<Rightarrow> string option \<Rightarrow> world \<Rightarrow> js_error option \<times> world" where
  "insert_scan_queue path parent_path w =
     (case round_trip w of
        (Some e, w') \<Rightarrow> (Some e, w')
      | (None, w') \<Rightarrow>
          if path \<in> set (map sq_path (scan_queue w'))
          then (Some (unique_violation ''uniq_scan_queue_path''), w')
          else (None, w'\<lparr>scan_queue := scan_queue w' @
                   [\<lparr>sq_id = next_id w', sq_path = path, sq_parent_path = parent_path,
                     sq_status = Queued, sq_claimed_at = None\<rparr>],
                 next_id := Suc (next_id w')\<rparr>))"

definition insertDir :: "string \<Rightarrow> string option \<Rightarrow> world \<Rightarrow> unit outcome" where
  "insertDir path parent_path w =
     (case insert_scan_queue path parent_path w of
        (Some e, w') \<Rightarrow> if \<not> ignorable e then (Inl e, w') else (Inr (), w')
      | (None, w') \<Rightarrow> (Inr (), w'))"

text \<open>The entry the crawler builds for a listed child (every column but the id).\<close>

record entry =
  e_path :: string
  e_is_dir :: bool
  e_parent_path :: "string option"
  e_size :: "int option"
  e_mime_type :: "string option"
  e_bunny_url :: "string option"
  e_status :: file_status

definition insert_bunny_file_map :: "entry \<Rightarrow> world \<Rightarrow> js_error option \<times> world" where
  "insert_bunny_file_map en w =
     (case round_trip w of
        (Some e, w') \<Rightarrow> (Some e, w')
      | (None, w') \<Rightarrow>
          if e_path en \<in> set (map f_path (bunny_file_map w'))
          then (Some (unique_violation ''uniq_bunny_file_map_path''), w')
          else (None, w'\<lparr>bunny_file_map := bunny_file_map w' @
                   [\<lparr>f_id = next_id w', f_path = e_path en, f_is_dir = e_is_dir en,
                     f_parent_path = e_parent_path en, f_size = e_size en,
                     f_mime_type = e_mime_type en, f_bunny_url = e_bunny_url en,
                     f_status = e_status en, f_claimed_at = None, f_claimed_by = None\<rparr>],
                 next_id := Suc (next_id w')\<rparr>))"

definition insertFileOrDir :: "entry \<Rightarrow> world \<Rightarrow> unit outcome" where
  "insertFileOrDir en w =
     (case insert_bunny_file_map en w of
        (Some e, w') \<Rightarrow> if \<not> ignorable e then (Inl e, w') else (Inr (), w')
      | (None, w') \<Rightarrow> (Inr (), w'))"

definition ensureRootQueued :: "world \<Rightarrow> unit outcome" where
  "ensureRootQueued w = insertDir ''/'' None w"

section \<open>The stored procedures of db\_setup.sql\<close>

text \<open>Each is one statement, run on the table as it stands; \<open>now\<close> is the store's
  \<open>now()\<close>. The result rows carry the columns of the \<open>RETURNING\<close> clause.\<close>

record dir_claim =
  c_id :: nat
  c_path :: string
  c_parent_path :: "string option"

record file_claim =
  fc_id :: nat
  fc_path :: string
  fc_bunny_url :: "string option"
  fc_mime_type :: "string option"
  fc_size :: "int option"

definition dir_cte :: "scan_row list \<Rightarrow> scan_row list" where
  "dir_cte q = take 1 (sort_key sq_path (filter (\<lambda>r. sq_status r = Queued) q))"

definition claim_next_dir :: "int \<Rightarrow> scan_row list \<Rightarrow> dir_claim list \<times> scan_row list" where
  "claim_next_dir now q =
     (let cte = dir_cte q
      in (map (\<lambda>r. \<lparr>c_id = sq_id r, c_path = sq_path r, c_parent_path = sq_parent_path r\<rparr>) cte,
          map (\<lambda>q2. if sq_id q2 \<in> set (map sq_id cte)
                     then q2\<lparr>sq_status := Claimed, sq_claimed_at := Some now\<rparr> else q2) q))"

definition file_cte :: "nat \<Rightarrow> file_row list \<Rightarrow> file_row list" where
  "file_cte batch_size b =
     take batch_size (sort_key f_path (filter (\<lambda>r. f_status r = Pending \<and> f_is_dir r = False) b))"

definition claim_files_to_migrate :: "nat \<Rightarrow> file_row list \<Rightarrow> file_claim list \<times> file_row list" where
  "claim_files_to_migrate batch_size b =
     (let cte = file_cte batch_size b
      in (map (\<lambda>r. \<lparr>fc_id = f_id r, fc_path = f_path r, fc_bunny_url = f_bunny_url r,
                     fc_mime_type = f_mime_type r, fc_size = f_size r\<rparr>) cte,
          map (\<lambda>b2. if f_id b2 \<in> set (map f_id cte) then b2\<lparr>f_status := Scanned\<rparr> else b2) b))"

definition increment_progress ::
  "nat \<Rightarrow> int \<Rightarrow> int \<Rightarrow> int \<Rightarrow> int \<Rightarrow> int \<Rightarrow> progress_row list \<Rightarrow> progress_row list" where
  "increment_progress job_id bytes_delta files_delta dirs_delta migrated_delta failed_delta ps =
     map (\<lambda>p. if p_job_id p = job_id
               then p\<lparr>total_bytes := total_bytes p + bytes_delta,
                      total_files := total_files p + files_delta,
                      scanned_dirs := scanned_dirs p + dirs_delta,
                      migrated_files := migrated_files p + migrated_delta,
                      failed_files := failed_files p + failed_delta\<rparr>
               else p) ps"

text \<open>Modelled from the spec: the stored procedure \<open>reclaim_inprogress_to_pending\<close> is
  called by migrate-files.js and control.js but is not defined in db\_setup.sql. The spec:
  a reaper for in-progress inventory claims whose claim timestamp exceeds a threshold
  resets them to pending. The threshold is in minutes.\<close>

definition reclaim_inprogress_to_pending :: "int \<Rightarrow> int \<Rightarrow> file_row list \<Rightarrow> file_row list" where
  "reclaim_inprogress_to_pending now minutes_threshold b =
     map (\<lambda>r. if f_status r = InProgress \<and>
                  (case f_claimed_at r of None \<Rightarrow> False
                   | Some t \<Rightarrow> now - t > minutes_threshold * 60000)
               then r\<lparr>f_status := Pending\<rparr> else r) b"

text \<open>Modelled from the spec: the stored procedure \<open>touch_job\<close> is called by
  discover-files.js but is not defined in db\_setup.sql. The spec: the heartbeat updates
  \<open>last_heartbeat\<close>.\<close>

definition touch_job :: "int \<Rightarrow> nat \<Rightarrow> job list \<Rightarrow> job list" where
  "touch_job now job_id js =
     map (\<lambda>j. if j_id j = job_id then j\<lparr>j_last_heartbeat := Some now\<rparr> else j) js"

section \<open>Configuration and the external collaborators\<close>

text \<open>The values of config.js the workers read, as counts. \<open>list_dir\<close> is the source
  listing; \<open>download\<close> and \<open>upload\<close> answer for a path, a response type (streamed or
  buffered) and the number of the attempt within one \<open>migrateOne\<close>.\<close>

record config =
  WORKER_ID :: nat
  MAX_RETRIES :: nat
  BATCH_SIZE :: nat
  SMALL_FILE_THRESHOLD_BYTES :: int

record item =
  ObjectName :: string
  IsDirectory :: bool
  Length :: int
  ContentType :: string

record env =
  bunny_base :: string
  list_dir :: "string \<Rightarrow> js_error + item list"
  download :: "string \<Rightarrow> bool \<Rightarrow> nat \<Rightarrow> js_error option"
  upload :: "string \<Rightarrow> bool \<Rightarrow> nat \<Rightarrow> js_error option"

definition HEARTBEAT_MS :: nat where "HEARTBEAT_MS = 15000"

definition STALE_MINUTES :: int where "STALE_MINUTES = 2"

definition ALLOW_PARALLEL_DISCOVER :: bool where "ALLOW_PARALLEL_DISCOVER = False"

section \<open>The migration worker (migrate-files.js)\<close>

definition getJob :: "nat \<Rightarrow> world \<Rightarrow> job outcome" where
  "getJob jobId w =
     (case round_trip (emit (ReadJob jobId) w) of
        (Some e, w') \<Rightarrow> (Inl e, w')
      | (None, w') \<Rightarrow>
          (case find (\<lambda>j. j_id j = jobId) (jobs w') of
             None \<Rightarrow> (Inl no_rows, w')
           | Some j \<Rightarrow> (Inr j, w')))"

text \<open>\<open>claimBatch\<close> passes a \<open>worker_id\<close> as well; the procedure of db\_setup.sql has no
  such parameter and the model drops it.\<close>

definition claimBatch :: "nat \<Rightarrow> world \<Rightarrow> file_claim list outcome" where
  "claimBatch batchSize w =
     (case round_trip w of
        (Some e, w') \<Rightarrow> (Inl e, w')
      | (None, w') \<Rightarrow>
          (case claim_files_to_migrate batchSize (bunny_file_map w') of
             (data, b') \<Rightarrow> (Inr data, emit (ClaimedBatch (map fc_id data)) (w'\<lparr>bunny_file_map := b'\<rparr>))))"

text \<open>The insert into \<open>migration_logs\<close> checks the two foreign keys of the table.\<close>

definition logResult ::
  "nat \<Rightarrow> nat \<Rightarrow> log_status \<Rightarrow> nat \<Rightarrow> string \<Rightarrow> string \<Rightarrow> int \<Rightarrow> string option \<Rightarrow> world \<Rightarrow> unit outcome" where
  "logResult file_id job_id status attempts bunny_path supabase_path time_taken error_msg w =
     (case round_trip w of
        (Some e, w') \<Rightarrow> (Inl e, w')
      | (None, w') \<Rightarrow>
          if file_id \<notin> set (map f_id (bunny_file_map w'))
          then (Inl (foreign_key_violation ''migration_logs_file_id_fkey''), w')
          else if job_id \<notin> set (map j_id (jobs w'))
          then (Inl (foreign_key_violation ''migration_logs_job_id_fkey''), w')
          else (Inr (), w'\<lparr>migration_logs := migration_logs w' @
                   [\<lparr>l_id = next_id w', l_file_id = file_id, l_job_id = job_id,
                     l_status = status, l_error_msg = error_msg, l_attempts = attempts,
                     l_bunny_path = bunny_path, l_supabase_path = supabase_path,
                     l_time_taken = time_taken\<rparr>],
                 next_id := Suc (next_id w')\<rparr>))"

definition finalizeFile :: "nat \<Rightarrow> file_status \<Rightarrow> world \<Rightarrow> unit outcome" where
  "finalizeFile fid status w =
     (case round_trip w of
        (Some e, w') \<Rightarrow> (Inl e, w')
      | (None, w') \<Rightarrow>
          (Inr (), w'\<lparr>bunny_file_map :=
              map (\<lambda>r. if f_id r = fid
                        then r\<lparr>f_status := status, f_claimed_at := None, f_claimed_by := None\<rparr>
                        else r) (bunny_file_map w')\<rparr>))"

definition incProgress :: "nat \<Rightarrow> int \<Rightarrow> int \<Rightarrow> world \<Rightarrow> unit outcome" where
  "incProgress job_id migrated failed w =
     (case round_trip w of
        (Some e, w') \<Rightarrow> (Inl e, w')
      | (None, w') \<Rightarrow>
          (Inr (), w'\<lparr>progress := increment_progress job_id 0 0 0 migrated failed (progress w')\<rparr>))"

definition destPath :: "string \<Rightarrow> string" where
  "destPath path = (case path of [] \<Rightarrow> path | c # cs \<Rightarrow> if c = CHR ''/'' then cs else path)"

definition streamed :: "config \<Rightarrow> file_claim \<Rightarrow> bool" where
  "streamed cfg file =
     (case fc_size file of None \<Rightarrow> False | Some n \<Rightarrow> n > SMALL_FILE_THRESHOLD_BYTES cfg)"

text \<open>One pass through the \<open>try\<close> block of \<open>migrateOne\<close>: download, upload, then the
  three writes of the success path, any of which may throw into the \<open>catch\<close>.\<close>

definition try_transfer :: "config \<Rightarrow> env \<Rightarrow> nat \<Rightarrow> file_claim \<Rightarrow> int \<Rightarrow> nat \<Rightarrow> world \<Rightarrow> unit outcome" where
  "try_transfer cfg en job_id file start attempt w0 =
     (let w = emit (Transferred (fc_id file) attempt) w0
      in case download en (fc_path file) (streamed cfg file) attempt of
           Some e \<Rightarrow> (Inl e, w)
         | None \<Rightarrow>
            (case upload en (destPath (fc_path file)) (streamed cfg file) attempt of
               Some e \<Rightarrow> (Inl e, w)
             | None \<Rightarrow>
                (case logResult (fc_id file) job_id LogSuccess attempt (fc_path file)
                        (destPath (fc_path file)) (clock w - start) None w of
                   (Inl e, w1) \<Rightarrow> (Inl e, w1)
                 | (Inr _, w1) \<Rightarrow>
                    (case finalizeFile (fc_id file) Migrated w1 of
                       (Inl e, w2) \<Rightarrow> (Inl e, w2)
                     | (Inr _, w2) \<Rightarrow> incProgress job_id 1 0 w2))))"

text \<open>The \<open>catch\<close> block on the last attempt.\<close>

definition give_up :: "nat \<Rightarrow> file_claim \<Rightarrow> int \<Rightarrow> nat \<Rightarrow> js_error \<Rightarrow> world \<Rightarrow> unit outcome" where
  "give_up job_id file start attempt e w =
     (case logResult (fc_id file) job_id LogFailed attempt (fc_path file)
             (destPath (fc_path file)) (clock w - start) (Some (err_message e)) w of
        (Inl e1, w1) \<Rightarrow> (Inl e1, w1)
      | (Inr _, w1) \<Rightarrow>
         (case finalizeFile (fc_id file) FileFailed w1 of
            (Inl e2, w2) \<Rightarrow> (Inl e2, w2)
          | (Inr _, w2) \<Rightarrow> incProgress job_id 0 1 w2))"

function migrateOne_from ::
  "config \<Rightarrow> env \<Rightarrow> nat \<Rightarrow> file_claim \<Rightarrow> int \<Rightarrow> nat \<Rightarrow> world \<Rightarrow> unit outcome" where
  "migrateOne_from cfg en job_id file start attempt w =
     (if attempt < MAX_RETRIES cfg
      then (case try_transfer cfg en job_id file start (Suc attempt) w of
              (Inr u, w1) \<Rightarrow> (Inr (), w1)
            | (Inl e, w1) \<Rightarrow>
                if Suc attempt \<ge> MAX_RETRIES cfg
                then give_up job_id file start (Suc attempt) e w1
                else migrateOne_from cfg en job_id file start (Suc attempt)
                       (sleep (1000 * Suc attempt * Suc attempt) w1))
      else (Inr (), w))"
  by pat_completeness auto
termination
  by (relation "measure (\<lambda>(cfg, en, job_id, file, start, attempt, w). MAX_RETRIES cfg - attempt)") auto

definition migrateOne :: "config \<Rightarrow> env \<Rightarrow> nat \<Rightarrow> file_claim \<Rightarrow> world \<Rightarrow> unit outcome" where
  "migrateOne cfg en job_id file w = migrateOne_from cfg en job_id file (clock w) 0 w"

text \<open>\<open>Promise.all\<close> over the batch under \<open>p-limit\<close>: the transfers of one batch are taken
  one after the other, in the order of the batch, and the first rejection ends the batch.\<close>

fun migrate_batch :: "config \<Rightarrow> env \<Rightarrow> nat \<Rightarrow> file_claim list \<Rightarrow> world \<Rightarrow> unit outcome" where
  "migrate_batch cfg en job_id [] w = (Inr (), w)"
| "migrate_batch cfg en job_id (f # fs) w =
     (case migrateOne cfg en job_id f w of
        (Inl e, w') \<Rightarrow> (Inl e, w')
      | (Inr u, w') \<Rightarrow> migrate_batch cfg en job_id fs w')"

text \<open>The insert into \<open>migration_progress\<close>: \<open>job_id\<close> is the primary key and references
  the job.\<close>

definition insert_progress :: "nat \<Rightarrow> world \<Rightarrow> js_error option \<times> world" where
  "insert_progress job_id w =
     (case round_trip w of
        (Some e, w') \<Rightarrow> (Some e, w')
      | (None, w') \<Rightarrow>
          if job_id \<in> set (map p_job_id (progress w'))
          then (Some (unique_violation ''migration_progress_pkey''), w')
          else if job_id \<notin> set (map j_id (jobs w'))
          then (Some (foreign_key_violation ''migration_progress_job_id_fkey''), w')
          else (None, w'\<lparr>progress := progress w' @
                   [\<lparr>p_job_id = job_id, total_bytes = 0, total_files = 0, scanned_dirs = 0,
                     migrated_files = 0, failed_files = 0\<rparr>]\<rparr>))"

definition insert_job :: "job_kind \<Rightarrow> string \<Rightarrow> nat option \<Rightarrow> int option \<Rightarrow> world \<Rightarrow> job outcome" where
  "insert_job kind note worker_id last_heartbeat w =
     (case round_trip w of
        (Some e, w') \<Rightarrow> (Inl e, w')
      | (None, w') \<Rightarrow>
          (let data = \<lparr>j_id = next_id w', j_kind = kind, j_status = Running, j_note = note,
                       j_created_at = clock w', j_worker_id = worker_id,
                       j_last_heartbeat = last_heartbeat, j_ended_at = None\<rparr>
           in (Inr data, w'\<lparr>jobs := jobs w' @ [data], next_id := Suc (next_id w')\<rparr>)))"

text \<open>\<open>createJob\<close> of migrate-files.js: the job row carries a kind and a note only, and the
  answer to the progress insert is not looked at.\<close>

definition createJob_migrate :: "string \<Rightarrow> world \<Rightarrow> job outcome" where
  "createJob_migrate note w =
     (case insert_job Migrate note None None w of
        (Inl e, w1) \<Rightarrow> (Inl e, w1)
      | (Inr data, w1) \<Rightarrow> (Inr data, snd (insert_progress (j_id data) w1)))"

text \<open>The update that ends the migration job; its answer is not looked at.\<close>

definition complete_job :: "nat \<Rightarrow> world \<Rightarrow> world" where
  "complete_job job_id w =
     (case round_trip (emit (MarkedJob Completed) w) of
        (Some e, w') \<Rightarrow> w'
      | (None, w') \<Rightarrow>
          w'\<lparr>jobs := map (\<lambda>j. if j_id j = job_id then j\<lparr>j_status := Completed\<rparr> else j) (jobs w')\<rparr>)"

datatype flow = Continue | Break

text \<open>One turn of the \<open>while (true)\<close> of \<open>run\<close> in migrate-files.js.\<close>

definition worker_iter :: "config \<Rightarrow> env \<Rightarrow> nat \<Rightarrow> world \<Rightarrow> flow outcome" where
  "worker_iter cfg en job_id w =
     (case getJob job_id w of
        (Inl e, w1) \<Rightarrow> (Inl e, w1)
      | (Inr fresh, w1) \<Rightarrow>
          if j_status fresh = Paused then (Inr Continue, sleep 2000 w1)
          else if j_status fresh \<in> {Stopped, Failed, Completed} then (Inr Break, w1)
          else
            (case claimBatch (BATCH_SIZE cfg) w1 of
               (Inl e, w2) \<Rightarrow> (Inl e, w2)
             | (Inr batch, w2) \<Rightarrow>
                 if length batch = 0
                 then (case claimBatch (BATCH_SIZE cfg) (sleep 2000 w2) of
                         (Inl e, w3) \<Rightarrow> (Inl e, w3)
                       | (Inr again, w3) \<Rightarrow>
                           if length again = 0 then (Inr Break, complete_job job_id w3)
                           else (case migrate_batch cfg en job_id again w3 of
                                   (Inl e, w4) \<Rightarrow> (Inl e, w4)
                                 | (Inr u, w4) \<Rightarrow> (Inr Continue, w4)))
                 else (case migrate_batch cfg en job_id batch w2 of
                         (Inl e, w4) \<Rightarrow> (Inl e, w4)
                       | (Inr u, w4) \<Rightarrow> (Inr Continue, w4))))"

text \<open>The loop may turn forever (a job left paused): it runs on fuel, and \<open>None\<close> is a
  loop that has not ended when the fuel is spent.\<close>

fun worker_loop :: "nat \<Rightarrow> config \<Rightarrow> env \<Rightarrow> nat \<Rightarrow> world \<Rightarrow> unit outcome option" where
  "worker_loop 0 cfg en job_id w = None"
| "worker_loop (Suc n) cfg en job_id w =
     (case worker_iter cfg en job_id w of
        (Inl e, w') \<Rightarrow> Some (Inl e, w')
      | (Inr Break, w') \<Rightarrow> Some (Inr (), w')
      | (Inr Continue, w') \<Rightarrow> worker_loop n cfg en job_id w')"

text \<open>\<open>run\<close> of migrate-files.js. The interval timer that calls the reaper of stale file
  claims runs beside the loop and is not part of it.\<close>

definition migrate_run :: "nat \<Rightarrow> config \<Rightarrow> env \<Rightarrow> world \<Rightarrow> unit outcome option" where
  "migrate_run fuel cfg en w =
     (case createJob_migrate ''Concurrent migration worker'' w of
        (Inl e, w1) \<Rightarrow> Some (Inl e, w1)
      | (Inr job, w1) \<Rightarrow> worker_loop fuel cfg en (j_id job) w1)"

section \<open>The crawler (discover-files.js)\<close>

definition createJob_discover :: "config \<Rightarrow> string \<Rightarrow> world \<Rightarrow> job outcome" where
  "createJob_discover cfg note w =
     (case insert_job Discover note (Some (WORKER_ID cfg)) (Some (clock w)) w of
        (Inl e, w1) \<Rightarrow> (Inl e, w1)
      | (Inr data, w1) \<Rightarrow>
          (case insert_progress (j_id data) w1 of
             (Some pErr, w2) \<Rightarrow> if \<not> ignorable pErr then (Inl pErr, w2) else (Inr data, w2)
           | (None, w2) \<Rightarrow> (Inr data, w2)))"

definition markJob :: "job_status \<Rightarrow> world \<Rightarrow> world" where
  "markJob status w =
     (case current_job w of
        None \<Rightarrow> w
      | Some jid \<Rightarrow>
          (case round_trip (emit (MarkedJob status) w) of
             (Some e, w') \<Rightarrow> w'
           | (None, w') \<Rightarrow>
               w'\<lparr>jobs := map (\<lambda>j. if j_id j = jid
                                     then j\<lparr>j_status := status, j_ended_at := Some (clock w')\<rparr>
                                     else j) (jobs w')\<rparr>))"

definition heartbeat :: "world \<Rightarrow> world" where
  "heartbeat w =
     (case current_job w of
        None \<Rightarrow> w
      | Some jid \<Rightarrow>
          (case round_trip (emit (Heartbeat jid) w) of
             (Some e, w') \<Rightarrow> w'
           | (None, w') \<Rightarrow> w'\<lparr>jobs := touch_job (clock w') jid (jobs w')\<rparr>))"

definition startHeartbeat :: "world \<Rightarrow> world" where
  "startHeartbeat w = w\<lparr>heartbeat_timer := Some HEARTBEAT_MS\<rparr>"

definition stopHeartbeat :: "world \<Rightarrow> world" where
  "stopHeartbeat w = w\<lparr>heartbeat_timer := None\<rparr>"

text \<open>Modelled from the spec: the stored procedure \<open>reap_stale_jobs\<close> is called by
  discover-files.js and control.js but is not defined in db\_setup.sql. The spec: the reaper
  scans for jobs of a given kind still marked running whose heartbeat is older than a
  staleness threshold and flips them to failed.\<close>

definition reap_stale_jobs :: "int \<Rightarrow> job_kind \<Rightarrow> int \<Rightarrow> job list \<Rightarrow> job list" where
  "reap_stale_jobs now kind minutes_threshold js =
     map (\<lambda>j. if j_kind j = kind \<and> j_status j = Running \<and>
                  (case j_last_heartbeat j of None \<Rightarrow> False
                   | Some t \<Rightarrow> now - t > minutes_threshold * 60000)
               then j\<lparr>j_status := Failed\<rparr> else j) js"

definition reapStale :: "world \<Rightarrow> world" where
  "reapStale w =
     (case round_trip w of
        (Some e, w') \<Rightarrow> w'
      | (None, w') \<Rightarrow> w'\<lparr>jobs := reap_stale_jobs (clock w') Discover STALE_MINUTES (jobs w')\<rparr>)"

text \<open>The query of \<open>findHealthyRunningJob\<close>: the running discover jobs, newest first,
  one row at most.\<close>

definition running_discover_newest_first :: "job list \<Rightarrow> job list" where
  "running_discover_newest_first js =
     take 1 (rev (sort_key j_created_at
                    (filter (\<lambda>j. j_kind j = Discover \<and> j_status j = Running) js)))"

definition age_ms :: "int \<Rightarrow> job \<Rightarrow> int" where
  "age_ms now j =
     now - (case j_last_heartbeat j of Some t \<Rightarrow> t | None \<Rightarrow> j_created_at j)"

definition findHealthyRunningJob :: "world \<Rightarrow> job option outcome" where
  "findHealthyRunningJob w =
     (case round_trip w of
        (Some e, w') \<Rightarrow> (Inl e, w')
      | (None, w') \<Rightarrow>
          (case running_discover_newest_first (jobs w') of
             [] \<Rightarrow> (Inr None, w')
           | j # rest \<Rightarrow>
               if age_ms (clock w') j \<le> STALE_MINUTES * 60000 then (Inr (Some j), w')
               else (Inr None, w')))"

text \<open>Lines 202 to 212 of \<open>run\<close>: the job this process works for.\<close>

definition choose_job :: "config \<Rightarrow> world \<Rightarrow> unit outcome" where
  "choose_job cfg w =
     (if \<not> ALLOW_PARALLEL_DISCOVER
      then (case findHealthyRunningJob w of
              (Inl e, w1) \<Rightarrow> (Inl e, w1)
            | (Inr (Some healthy), w1) \<Rightarrow> (Inr (), w1\<lparr>current_job := Some (j_id healthy)\<rparr>)
            | (Inr None, w1) \<Rightarrow>
                (case createJob_discover cfg ''Concurrent-safe discovery'' w1 of
                   (Inl e, w2) \<Rightarrow> (Inl e, w2)
                 | (Inr j, w2) \<Rightarrow> (Inr (), w2\<lparr>current_job := Some (j_id j)\<rparr>)))
      else (case createJob_discover cfg ''Concurrent-safe discovery (parallel)'' w of
              (Inl e, w2) \<Rightarrow> (Inl e, w2)
            | (Inr j, w2) \<Rightarrow> (Inr (), w2\<lparr>current_job := Some (j_id j)\<rparr>)))"

definition claimNextDir :: "world \<Rightarrow> dir_claim option outcome" where
  "claimNextDir w =
     (case round_trip w of
        (Some e, w') \<Rightarrow> (Inl e, w')
      | (None, w') \<Rightarrow>
          (case claim_next_dir (clock w') (scan_queue w') of
             (data, q') \<Rightarrow>
               (case data of
                  [] \<Rightarrow> (Inr None, emit (ClaimedDir None) (w'\<lparr>scan_queue := q'\<rparr>))
                | d # ds \<Rightarrow> (Inr (Some d), emit (ClaimedDir (Some (c_id d))) (w'\<lparr>scan_queue := q'\<rparr>)))))"

definition markDirDone :: "nat \<Rightarrow> scan_status \<Rightarrow> world \<Rightarrow> unit outcome" where
  "markDirDone dirId status w =
     (case round_trip w of
        (Some e, w') \<Rightarrow> (Inl e, w')
      | (None, w') \<Rightarrow>
          (Inr (), w'\<lparr>scan_queue :=
              map (\<lambda>r. if sq_id r = dirId then r\<lparr>sq_status := status\<rparr> else r) (scan_queue w')\<rparr>))"

definition bumpProgress :: "nat \<Rightarrow> int \<Rightarrow> int \<Rightarrow> int \<Rightarrow> world \<Rightarrow> unit outcome" where
  "bumpProgress jobId bytes files dirs w =
     (case round_trip w of
        (Some e, w') \<Rightarrow> (Inl e, w')
      | (None, w') \<Rightarrow>
          (Inr (), w'\<lparr>progress := increment_progress jobId bytes files dirs 0 0 (progress w')\<rparr>))"

text \<open>The \<open>for\<close> loop over the listed children, with the two running sums.\<close>

fun scan_items :: "env \<Rightarrow> string \<Rightarrow> item list \<Rightarrow> int \<Rightarrow> int \<Rightarrow> world \<Rightarrow> (int \<times> int) outcome" where
  "scan_items en path [] filesDelta bytesDelta w = (Inr (filesDelta, bytesDelta), w)"
| "scan_items en path (it # items) filesDelta bytesDelta w =
     (let isDir = IsDirectory it;
          itemPath = path @ ObjectName it @ (if isDir then ''/'' else [])
      in case insertFileOrDir
                \<lparr>e_path = itemPath, e_is_dir = isDir, e_parent_path = Some path,
                 e_size = (if isDir then None else Some (Length it)),
                 e_mime_type = (if isDir then None else Some (ContentType it)),
                 e_bunny_url = (if isDir then None else Some (bunny_base en @ itemPath)),
                 e_status = Pending\<rparr> w of
           (Inl e, w1) \<Rightarrow> (Inl e, w1)
         | (Inr u, w1) \<Rightarrow>
             if isDir
             then (case insertDir itemPath (Some path) w1 of
                     (Inl e, w2) \<Rightarrow> (Inl e, w2)
                   | (Inr u2, w2) \<Rightarrow> scan_items en path items filesDelta bytesDelta w2)
             else scan_items en path items (filesDelta + 1) (bytesDelta + Length it) w1)"

text \<open>The \<open>try\<close> block of the loop: list, record the children, count, mark done.\<close>

definition scan_dir :: "env \<Rightarrow> nat \<Rightarrow> dir_claim \<Rightarrow> world \<Rightarrow> unit outcome" where
  "scan_dir en job_id claim w =
     (case list_dir en (c_path claim) of
        Inl e \<Rightarrow> (Inl e, emit (Listed (c_path claim)) w)
      | Inr items \<Rightarrow>
          (case scan_items en (c_path claim) items 0 0 (emit (Listed (c_path claim)) w) of
             (Inl e, w1) \<Rightarrow> (Inl e, w1)
           | (Inr (filesDelta, bytesDelta), w1) \<Rightarrow>
               (case bumpProgress job_id bytesDelta filesDelta 1 w1 of
                  (Inl e, w2) \<Rightarrow> (Inl e, w2)
                | (Inr u, w2) \<Rightarrow> markDirDone (c_id claim) Done w2)))"

definition null_job :: js_error where
  "null_job = \<lparr>err_code = None, err_message = ''Cannot read properties of null''\<rparr>"

text \<open>One turn of the \<open>while (true)\<close> of \<open>run\<close> in discover-files.js.\<close>

definition crawl_iter :: "env \<Rightarrow> world \<Rightarrow> flow outcome" where
  "crawl_iter en w =
     (case current_job (heartbeat w) of
        None \<Rightarrow> (Inl null_job, heartbeat w)
      | Some job_id \<Rightarrow>
          (case getJob job_id (heartbeat w) of
             (Inl e, w1) \<Rightarrow> (Inl e, w1)
           | (Inr fresh, w1) \<Rightarrow>
               if j_status fresh = Paused then (Inr Continue, sleep 2000 w1)
               else if j_status fresh \<in> {Stopped, Failed, Completed} then (Inr Break, w1)
               else
                 (case claimNextDir w1 of
                    (Inl e, w2) \<Rightarrow> (Inl e, w2)
                  | (Inr None, w2) \<Rightarrow> (Inr Break, markJob Completed w2)
                  | (Inr (Some claim), w2) \<Rightarrow>
                      (case scan_dir en job_id claim w2 of
                         (Inr u, w3) \<Rightarrow> (Inr Continue, w3)
                       | (Inl e, w3) \<Rightarrow>
                           (case markDirDone (c_id claim) DirFailed w3 of
                              (Inl e', w4) \<Rightarrow> (Inl e', w4)
                            | (Inr u, w4) \<Rightarrow> (Inr Continue, w4))))))"

fun crawl_loop :: "nat \<Rightarrow> env \<Rightarrow> world \<Rightarrow> unit outcome option" where
  "crawl_loop 0 en w = None"
| "crawl_loop (Suc n) en w =
     (case crawl_iter en w of
        (Inl e, w') \<Rightarrow> Some (Inl e, w')
      | (Inr Break, w') \<Rightarrow> Some (Inr (), w')
      | (Inr Continue, w') \<Rightarrow> crawl_loop n en w')"

text \<open>\<open>run\<close> of discover-files.js up to the loop, the whole of it, and the handler of
  its rejection at the end of the file. The signal handlers are outside the model.\<close>

definition startup :: "config \<Rightarrow> world \<Rightarrow> unit outcome" where
  "startup cfg w =
     (case ensureRootQueued (reapStale w) of
        (Inl e, w2) \<Rightarrow> (Inl e, w2)
      | (Inr u, w2) \<Rightarrow>
          (case choose_job cfg w2 of
             (Inl e, w3) \<Rightarrow> (Inl e, w3)
           | (Inr u, w3) \<Rightarrow> (Inr (), startHeartbeat w3)))"

definition discover_run :: "nat \<Rightarrow> config \<Rightarrow> env \<Rightarrow> world \<Rightarrow> unit outcome option" where
  "discover_run fuel cfg en w =
     (case startup cfg w of
        (Inl e, w3) \<Rightarrow> Some (Inl e, w3)
      | (Inr u, w3) \<Rightarrow>
          (case crawl_loop fuel en w3 of
             None \<Rightarrow> None
           | Some (Inl e, w4) \<Rightarrow> Some (Inl e, w4)
           | Some (Inr u, w4) \<Rightarrow> Some (Inr (), stopHeartbeat w4)))"

definition discover_main :: "nat \<Rightarrow> config \<Rightarrow> env \<Rightarrow> world \<Rightarrow> unit outcome option" where
  "discover_main fuel cfg en w =
     (case discover_run fuel cfg en w of
        None \<Rightarrow> None
      | Some (Inl e, w') \<Rightarrow> Some (Inl e, markJob Failed (stopHeartbeat w'))
      | Some (Inr u, w') \<Rightarrow> Some (Inr (), w'))"

section \<open>Concurrent claims\<close>

text \<open>
  \<open>claim_next_dir\<close> and \<open>claim_files_to_migrate\<close> have one shape:
  \<^verbatim>\<open>WITH cte AS (SELECT .. WHERE <claimable> ORDER BY path FOR UPDATE SKIP LOCKED LIMIT n)
  UPDATE .. SET status = <claimed> FROM cte WHERE id = cte.id RETURNING cte..\<close>
  and every call is a transaction of its own. The four parts that differ are the fields of
  \<open>claim_ops\<close>.
\<close>

record 'r claim_ops =
  row_id :: "'r \<Rightarrow> nat"
  row_path :: "'r \<Rightarrow> string"
  claimable :: "'r \<Rightarrow> bool"
  set_claimed :: "int \<Rightarrow> 'r \<Rightarrow> 'r"

definition dir_ops :: "scan_row claim_ops" where
  "dir_ops =
     \<lparr>row_id = sq_id, row_path = sq_path,
      claimable = (\<lambda>q. sq_status q = Queued),
      set_claimed = (\<lambda>now q2. q2\<lparr>sq_status := Claimed, sq_claimed_at := Some now\<rparr>)\<rparr>"

definition file_ops :: "file_row claim_ops" where
  "file_ops =
     \<lparr>row_id = f_id, row_path = f_path,
      claimable = (\<lambda>b. f_status b = Pending \<and> f_is_dir b = False),
      set_claimed = (\<lambda>now b2. b2\<lparr>f_status := Scanned\<rparr>)\<rparr>"

text \<open>
  Callers are numbered. A call that has begun walks the rows its statement selected, in
  path order, one row per step: a row whose lock another transaction holds is skipped
  (\<open>SKIP LOCKED\<close>), a row that a transaction committed since has made unclaimable is
  skipped (the condition is checked again on the row as it is when the lock is taken),
  any other row is locked and kept, until \<open>LIMIT\<close> rows are kept. The last step updates the
  kept rows, releases the locks and returns the kept rows. Steps of different callers
  interleave in any order: a schedule names the caller that moves next.
\<close>

datatype 'r txn = Idle | Scanning "'r list" "'r list" nat | Returned "'r list"

record 'r shared =
  table :: "'r list"
  row_lock :: "nat \<Rightarrow> nat option"
  txns :: "nat \<Rightarrow> 'r txn"

definition initial :: "'r list \<Rightarrow> 'r shared" where
  "initial tbl = \<lparr>table = tbl, row_lock = (\<lambda>i. None), txns = (\<lambda>s. Idle)\<rparr>"

definition begin_txn :: "'r claim_ops \<Rightarrow> nat \<Rightarrow> nat \<Rightarrow> 'r shared \<Rightarrow> 'r shared" where
  "begin_txn ops lim s st =
     st\<lparr>txns := (txns st)
          (s := Scanning (sort_key (row_path ops) (filter (claimable ops) (table st))) [] lim)\<rparr>"

definition commit_txn :: "'r claim_ops \<Rightarrow> int \<Rightarrow> nat \<Rightarrow> 'r list \<Rightarrow> 'r shared \<Rightarrow> 'r shared" where
  "commit_txn ops now s got st =
     st\<lparr>table := map (\<lambda>r. if row_id ops r \<in> set (map (row_id ops) got)
                           then set_claimed ops now r else r) (table st),
        row_lock := (\<lambda>i. if row_lock st i = Some s then None else row_lock st i),
        txns := (txns st)(s := Returned got)\<rparr>"

definition visit_row :: "'r claim_ops \<Rightarrow> nat \<Rightarrow> 'r \<Rightarrow> 'r list \<Rightarrow> 'r list \<Rightarrow> nat \<Rightarrow> 'r shared \<Rightarrow> 'r shared" where
  "visit_row ops s c cs got k st =
     (case find (\<lambda>r. row_id ops r = row_id ops c) (table st) of
        None \<Rightarrow> st\<lparr>txns := (txns st)(s := Scanning cs got k)\<rparr>
      | Some cur \<Rightarrow>
          if row_lock st (row_id ops c) \<noteq> None \<and> row_lock st (row_id ops c) \<noteq> Some s
          then st\<lparr>txns := (txns st)(s := Scanning cs got k)\<rparr>
          else if \<not> claimable ops cur
          then st\<lparr>txns := (txns st)(s := Scanning cs got k)\<rparr>
          else st\<lparr>row_lock := (row_lock st)(row_id ops c := Some s),
                  txns := (txns st)(s := Scanning cs (got @ [cur]) (k - 1))\<rparr>)"

definition txn_step :: "'r claim_ops \<Rightarrow> (nat \<Rightarrow> nat) \<Rightarrow> (nat \<Rightarrow> int) \<Rightarrow> nat \<Rightarrow> 'r shared \<Rightarrow> 'r shared" where
  "txn_step ops lim now s st =
     (case txns st s of
        Idle \<Rightarrow> begin_txn ops (lim s) s st
      | Scanning todo got k \<Rightarrow>
          (case todo of
             [] \<Rightarrow> commit_txn ops (now s) s got st
           | c # cs \<Rightarrow>
               if k = 0 then commit_txn ops (now s) s got st
               else visit_row ops s c cs got k st)
      | Returned rs \<Rightarrow> st)"

fun run_schedule :: "'r claim_ops \<Rightarrow> (nat \<Rightarrow> nat) \<Rightarrow> (nat \<Rightarrow> int) \<Rightarrow> nat list \<Rightarrow> 'r shared \<Rightarrow> 'r shared" where
  "run_schedule ops lim now [] st = st"
| "run_schedule ops lim now (s # ss) st = run_schedule ops lim now ss (txn_step ops lim now s st)"

text \<open>The ids of the rows a caller has been handed.\<close>

definition received :: "'r claim_ops \<Rightarrow> 'r shared \<Rightarrow> nat \<Rightarrow> nat list" where
  "received ops st s = (case txns st s of Returned rs \<Rightarrow> map (row_id ops) rs | _ \<Rightarrow> [])"

text \<open>The ids a caller holds: locked so far, or handed over.\<close>

definition held :: "'r claim_ops \<Rightarrow> 'r shared \<Rightarrow> nat \<Rightarrow> nat set" where
  "held ops st s =
     (case txns st s of
        Idle \<Rightarrow> {}
      | Scanning todo got k \<Rightarrow> set (map (row_id ops) got)
      | Returned rs \<Rightarrow> set (map (row_id ops) rs))"

text \<open>The invariant of the interleaving, part by part: a lock is held by a caller that
  is walking and has kept that row; a row a walking caller has kept is locked by it; a row
  handed over has been through the update; no two callers hold the same row.\<close>

definition locks_owned :: "'r claim_ops \<Rightarrow> 'r shared \<Rightarrow> bool" where
  "locks_owned ops st \<longleftrightarrow>
     (\<forall>i s. row_lock st i = Some s \<longrightarrow>
        (\<exists>todo got k. txns st s = Scanning todo got k \<and> i \<in> set (map (row_id ops) got)))"

definition kept_locked :: "'r claim_ops \<Rightarrow> 'r shared \<Rightarrow> bool" where
  "kept_locked ops st \<longleftrightarrow>
     (\<forall>s todo got k. txns st s = Scanning todo got k \<longrightarrow>
        (\<forall>r \<in> set got. row_lock st (row_id ops r) = Some s))"

definition returned_flipped :: "'r claim_ops \<Rightarrow> 'r shared \<Rightarrow> bool" where
  "returned_flipped ops st \<longleftrightarrow>
     (\<forall>s rs. txns st s = Returned rs \<longrightarrow>
        (\<forall>r \<in> set rs. \<forall>r' \<in> set (table st).
           row_id ops r' = row_id ops r \<longrightarrow> (\<exists>now r0. r' = set_claimed ops now r0)))"

definition held_apart :: "'r claim_ops \<Rightarrow> 'r shared \<Rightarrow> bool" where
  "held_apart ops st \<longleftrightarrow> (\<forall>a b. a \<noteq> b \<longrightarrow> held ops st a \<inter> held ops st b = {})"

definition claim_inv :: "'r claim_ops \<Rightarrow> 'r shared \<Rightarrow> bool" where
  "claim_inv ops st \<longleftrightarrow>
     distinct (map (row_id ops) (table st)) \<and> locks_owned ops st \<and> kept_locked ops st \<and>
     returned_flipped ops st \<and> held_apart ops st"

text \<open>What the proofs need of the four parts: the update takes a row out of the
  claimable rows and keeps its id.\<close>

definition sound_ops :: "'r claim_ops \<Rightarrow> bool" where
  "sound_ops ops \<longleftrightarrow>
     (\<forall>now r. \<not> claimable ops (set_claimed ops now r)) \<and>
     (\<forall>now r. row_id ops (set_claimed ops now r) = row_id ops r)"

section \<open>Observations on a run\<close>

definition is_heartbeat :: "event \<Rightarrow> bool" where
  "is_heartbeat ev = (case ev of Heartbeat j \<Rightarrow> True | _ \<Rightarrow> False)"

text \<open>What a run shows of the heartbeat: the calls of \<open>touch_job\<close>, the timer, and
  the \<open>last_heartbeat\<close> of every job.\<close>

definition beat_view :: "world \<Rightarrow> event list \<times> nat option \<times> int option list" where
  "beat_view w =
     (filter is_heartbeat (trace w), heartbeat_timer w, map j_last_heartbeat (jobs w))"






section \<open>Concrete stores\<close>

definition file_a :: file_row where
  "file_a = \<lparr>f_id = 7, f_path = ''/a.txt'', f_is_dir = False, f_parent_path = Some ''/'',
             f_size = Some 10, f_mime_type = None, f_bunny_url = None, f_status = Pending,
             f_claimed_at = None, f_claimed_by = None\<rparr>"

definition job1 :: job where
  "job1 = \<lparr>j_id = 1, j_kind = Discover, j_status = Running, j_note = [], j_created_at = 0,
           j_worker_id = Some 42, j_last_heartbeat = Some 0, j_ended_at = None\<rparr>"

definition root_claimed :: scan_row where
  "root_claimed = \<lparr>sq_id = 2, sq_path = ''/'', sq_parent_path = None, sq_status = Claimed,
                   sq_claimed_at = Some 0\<rparr>"

definition empty_world :: world where
  "empty_world = \<lparr>jobs = [], progress = [], scan_queue = [], bunny_file_map = [],
                  migration_logs = [], clock = 1000, next_id = 1, current_job = None,
                  heartbeat_timer = None, faults = [], trace = []\<rparr>"

text \<open>A second crawler has claimed the root and is still listing it.\<close>

definition busy_world :: world where
  "busy_world = empty_world\<lparr>jobs := [job1], scan_queue := [root_claimed], next_id := 3,
                            current_job := Some 1, heartbeat_timer := Some 15000\<rparr>"

definition cfg0 :: config where
  "cfg0 = \<lparr>WORKER_ID = 42, MAX_RETRIES = 3, BATCH_SIZE = 1000,
           SMALL_FILE_THRESHOLD_BYTES = 26214400\<rparr>"

definition en0 :: env where
  "en0 = \<lparr>bunny_base = ''https://ny.storage.bunnycdn.com/zone'', list_dir = (\<lambda>p. Inr []),
          download = (\<lambda>p s a. None), upload = (\<lambda>p s a. None)\<rparr>"

text \<open>The store after a worker has moved \<open>file_a\<close> and found nothing more.\<close>

definition migrated_world :: world where
  "migrated_world =
     \<lparr>jobs = [\<lparr>j_id = 8, j_kind = Migrate, j_status = Completed,
                j_note = ''Concurrent migration worker'', j_created_at = 1000,
                j_worker_id = None, j_last_heartbeat = None, j_ended_at = None\<rparr>],
      progress = [\<lparr>p_job_id = 8, total_bytes = 0, total_files = 0, scanned_dirs = 0,
                    migrated_files = 1, failed_files = 0\<rparr>],
      scan_queue = [],
      bunny_file_map = [file_a\<lparr>f_status := Migrated\<rparr>],
      migration_logs = [\<lparr>l_id = 9, l_file_id = 7, l_job_id = 8, l_status = LogSuccess,
                          l_error_msg = None, l_attempts = 1, l_bunny_path = ''/a.txt'',
                          l_supabase_path = ''a.txt'', l_time_taken = 0\<rparr>],
      clock = 3000, next_id = 10, current_job = None, heartbeat_timer = None, faults = [],
      trace = [ReadJob 8, ClaimedBatch [7], Transferred 7 1, ReadJob 8, ClaimedBatch [],
               Slept 2000, ClaimedBatch [], MarkedJob Completed]\<rparr>"



definition root_queued :: scan_row where
  "root_queued = \<lparr>sq_id = 2, sq_path = ''/'', sq_parent_path = None, sq_status = Queued,
                  sq_claimed_at = None\<rparr>"










text \<open>The root and \<open>/b/\<close> are queued, job 1 is running and is this crawler's job; the
  source refuses to list the root.\<close>

definition b_queued :: scan_row where
  "b_queued = \<lparr>sq_id = 3, sq_path = ''/b/'', sq_parent_path = Some ''/'', sq_status = Queued,
               sq_claimed_at = None\<rparr>"





text \<open>Three queued directories and three pending files for two callers.\<close>

definition three_dirs :: "scan_row list" where
  "three_dirs = [b_queued, root_queued,
                 \<lparr>sq_id = 4, sq_path = ''/c/'', sq_parent_path = Some ''/'', sq_status = Queued,
                  sq_claimed_at = None\<rparr>]"

definition three_files :: "file_row list" where
  "three_files = [file_a\<lparr>f_id := 9, f_path := ''/c.txt''\<rparr>, file_a,
                  file_a\<lparr>f_id := 8, f_path := ''/b.txt''\<rparr>]"

text \<open>Two callers, 0 and 1, taking turns.\<close>

definition turns :: "nat list" where
  "turns = [0, 1, 0, 1, 0, 1, 1, 0, 0, 1, 0, 1]"


section \<open>First facts\<close>

declare migrateOne_from.simps [simp del]


lemma migrateOne_from_done:
  "\<not> attempt < MAX_RETRIES cfg \<Longrightarrow> migrateOne_from cfg en j f st attempt w = (Inr (), w)"
  by (simp add: migrateOne_from.simps[of cfg en j f st attempt w])

lemma migrateOne_from_ok:
  "attempt < MAX_RETRIES cfg \<Longrightarrow> try_transfer cfg en j f st (Suc attempt) w = (Inr u, w1) \<Longrightarrow>
   migrateOne_from cfg en j f st attempt w = (Inr (), w1)"
  by (simp add: migrateOne_from.simps[of cfg en j f st attempt w])

lemma migrateOne_from_last:
  "attempt < MAX_RETRIES cfg \<Longrightarrow> try_transfer cfg en j f st (Suc attempt) w = (Inl e, w1) \<Longrightarrow>
   MAX_RETRIES cfg \<le> Suc attempt \<Longrightarrow>
   migrateOne_from cfg en j f st attempt w = give_up j f st (Suc attempt) e w1"
  by (simp add: migrateOne_from.simps[of cfg en j f st attempt w])

lemma migrateOne_from_retry:
  "attempt < MAX_RETRIES cfg \<Longrightarrow> try_transfer cfg en j f st (Suc attempt) w = (Inl e, w1) \<Longrightarrow>
   \<not> MAX_RETRIES cfg \<le> Suc attempt \<Longrightarrow>
   migrateOne_from cfg en j f st attempt w =
     migrateOne_from cfg en j f st (Suc attempt) (sleep (1000 * Suc attempt * Suc attempt) w1)"
  by (simp add: migrateOne_from.simps[of cfg en j f st attempt w])

section \<open>The claim procedures, one call at a time\<close>

lemma file_cte_length:
  "length (file_cte n b) =
     min n (length (filter (\<lambda>r. f_status r = Pending \<and> f_is_dir r = False) b))"
  by (simp add: file_cte_def)

lemma claim_files_count:
  "length (fst (claim_files_to_migrate n b)) =
     min n (length (filter (\<lambda>r. f_status r = Pending \<and> f_is_dir r = False) b))"
  by (simp add: claim_files_to_migrate_def Let_def file_cte_length)

lemma file_cte_sorted: "sorted (map f_path (file_cte n b))"
  unfolding file_cte_def take_map[symmetric]
  by (rule sorted_wrt_take) simp

lemma claim_files_sorted: "sorted (map fc_path (fst (claim_files_to_migrate n b)))"
  using file_cte_sorted[of n b] by (simp add: claim_files_to_migrate_def Let_def comp_def)

lemma claim_files_writes_no_metadata:
  "map f_claimed_at (snd (claim_files_to_migrate n b)) = map f_claimed_at b"
  "map f_claimed_by (snd (claim_files_to_migrate n b)) = map f_claimed_by b"
  unfolding claim_files_to_migrate_def Let_def snd_conv map_map
  by (rule map_cong[OF refl], simp)+

lemma claim_files_status:
  assumes "r \<in> set (snd (claim_files_to_migrate n b))"
    and "f_id r \<in> set (map fc_id (fst (claim_files_to_migrate n b)))"
  shows "f_status r = Scanned"
  using assms by (auto simp: claim_files_to_migrate_def Let_def comp_def split: if_splits)

lemma reaper_skips_what_is_not_in_progress:
  "\<forall>r \<in> set b. f_status r \<noteq> InProgress \<Longrightarrow> reclaim_inprogress_to_pending now m b = b"
  by (induction b) (simp_all add: reclaim_inprogress_to_pending_def)

text \<open>
  C2. \<open>claim_file_batch(n)\<close> is to hand out \<open>min n k\<close> pending files in path order and to
  leave each in the in-progress status with \<open>claimed_at\<close> and \<open>claimed_by\<close> recorded. The
  count and the order hold (\<open>claim_files_count\<close>, \<open>claim_files_sorted\<close>); the status
  written is always \<open>scanned\<close> (\<open>claim_files_status\<close>), and no claim metadata is ever
  written (\<open>claim_files_writes_no_metadata\<close>). With one pending file, a claim of five
  returns it and leaves it scanned, unstamped and unowned.
\<close>

theorem claim_files_to_migrate_marks_scanned:
  "map fc_id (fst (claim_files_to_migrate 5 [file_a])) = [7] \<and>
   map (\<lambda>r. (f_id r, f_status r, f_claimed_at r, f_claimed_by r))
       (snd (claim_files_to_migrate 5 [file_a])) = [(7, Scanned, None, None)]"
  by (simp add: claim_files_to_migrate_def file_cte_def file_a_def)

lemma reaper_resets_stale_in_progress:
  assumes "r \<in> set b" "f_status r = InProgress" "f_claimed_at r = Some t" "now - t > m * 60000"
  shows "r\<lparr>f_status := Pending\<rparr> \<in> set (reclaim_inprogress_to_pending now m b)"
proof -
  let ?f = "\<lambda>r. if f_status r = InProgress \<and>
                     (case f_claimed_at r of None \<Rightarrow> False | Some t \<Rightarrow> now - t > m * 60000)
                  then r\<lparr>f_status := Pending\<rparr> else r"
  have e: "?f r = r\<lparr>f_status := Pending\<rparr>" using assms(2,3,4) by simp
  have "?f r \<in> set (map ?f b)" using assms(1) by (simp only: set_map) (rule imageI)
  then show ?thesis unfolding reclaim_inprogress_to_pending_def e .
qed

lemma claim_files_takes_all:
  assumes "length (filter (\<lambda>r. f_status r = Pending \<and> f_is_dir r = False) b) \<le> n"
    and "r \<in> set b" "f_status r = Pending" "f_is_dir r = False"
  shows "f_id r \<in> set (map fc_id (fst (claim_files_to_migrate n b)))"
proof -
  have "file_cte n b = sort_key f_path (filter (\<lambda>r. f_status r = Pending \<and> f_is_dir r = False) b)"
    using assms(1) by (simp add: file_cte_def)
  then have "r \<in> set (file_cte n b)" using assms(2,3,4) by simp
  then show ?thesis by (simp add: claim_files_to_migrate_def Let_def comp_def)
qed

text \<open>
  C3. A file claimed for transfer whose claim has grown stale is to be reset to pending by
  the reaper and handed out again. A row that is in progress with a stale claim time is
  indeed reset (\<open>reaper_resets_stale_in_progress\<close>) and then handed out by a claim that
  is large enough (\<open>claim_files_takes_all\<close>); but the claim procedure brings no row there.
  The file claimed above is scanned, not in progress, and carries no claim time, and the
  reaper passes over every row that is not in progress
  (\<open>reaper_skips_what_is_not_in_progress\<close>): thirty-one minutes later the reaper, with
  its threshold of thirty minutes, leaves the file scanned, and the next claim returns
  nothing.
\<close>

theorem scanned_claim_is_not_reclaimed:
  "map fc_id (fst (claim_files_to_migrate 5 [file_a])) = [7] \<and>
   map f_status (reclaim_inprogress_to_pending (31 * 60000) 30
                   (snd (claim_files_to_migrate 5 [file_a]))) = [Scanned] \<and>
   fst (claim_files_to_migrate 5
          (reclaim_inprogress_to_pending (31 * 60000) 30
             (snd (claim_files_to_migrate 5 [file_a])))) = []"
  by (simp add: claim_files_to_migrate_def file_cte_def file_a_def
      reclaim_inprogress_to_pending_def)

section \<open>Insert-only writes\<close>












section \<open>The migration worker and the heartbeat\<close>

lemma beat_sleep [simp]: "beat_view (sleep ms w) = beat_view w"
  by (simp add: sleep_def emit_def beat_view_def is_heartbeat_def)

lemma beat_getJob: "getJob j w = (r, w') \<Longrightarrow> beat_view w' = beat_view w"
  by (auto simp: getJob_def round_trip_def emit_def beat_view_def is_heartbeat_def
      split: list.splits option.splits)

lemma beat_claimBatch: "claimBatch n w = (r, w') \<Longrightarrow> beat_view w' = beat_view w"
  by (auto simp: claimBatch_def round_trip_def emit_def beat_view_def is_heartbeat_def
      split: list.splits option.splits prod.splits)

lemma beat_logResult: "logResult a b c d e f g h w = (r, w') \<Longrightarrow> beat_view w' = beat_view w"
  by (auto simp: logResult_def round_trip_def beat_view_def
      split: list.splits option.splits if_splits)

lemma beat_finalizeFile: "finalizeFile a b w = (r, w') \<Longrightarrow> beat_view w' = beat_view w"
  by (auto simp: finalizeFile_def round_trip_def beat_view_def split: list.splits option.splits)

lemma beat_incProgress: "incProgress a b c w = (r, w') \<Longrightarrow> beat_view w' = beat_view w"
  by (auto simp: incProgress_def round_trip_def beat_view_def split: list.splits option.splits)

lemma beat_emit_transfer [simp]: "beat_view (emit (Transferred a b) w) = beat_view w"
  by (simp add: emit_def beat_view_def is_heartbeat_def)

lemma beat_try_transfer:
  "try_transfer cfg en j f st a w = (r, w') \<Longrightarrow> beat_view w' = beat_view w"
  unfolding try_transfer_def Let_def
  by (auto split: option.splits prod.splits sum.splits
      dest!: beat_logResult beat_finalizeFile beat_incProgress)

lemma beat_give_up: "give_up j f st a e w = (r, w') \<Longrightarrow> beat_view w' = beat_view w"
  unfolding give_up_def
  by (auto split: option.splits prod.splits sum.splits
      dest!: beat_logResult beat_finalizeFile beat_incProgress)

lemma beat_migrateOne_from:
  "migrateOne_from cfg en j f st a w = (r, w') \<Longrightarrow> beat_view w' = beat_view w"
proof (induction cfg en j f st a w rule: migrateOne_from.induct)
  case (1 cfg en job_id fl start attempt w)
  show ?case
  proof (cases "attempt < MAX_RETRIES cfg")
    case False
    with "1.prems" show ?thesis by (simp add: migrateOne_from_done)
  next
    case True
    obtain r1 w1 where t: "try_transfer cfg en job_id fl start (Suc attempt) w = (r1, w1)"
      by (cases "try_transfer cfg en job_id fl start (Suc attempt) w")
    have b1: "beat_view w1 = beat_view w" using t by (rule beat_try_transfer)
    show ?thesis
    proof (cases r1)
      case (Inr u)
      with "1.prems" True t b1 show ?thesis by (simp add: migrateOne_from_ok)
    next
      case (Inl e)
      show ?thesis
      proof (cases "MAX_RETRIES cfg \<le> Suc attempt")
        case le: True
        with "1.prems" True t Inl
        have "give_up job_id fl start (Suc attempt) e w1 = (r, w')"
          by (simp add: migrateOne_from_last)
        then show ?thesis using b1 by (auto dest: beat_give_up)
      next
        case nle: False
        with "1.prems" True t Inl
        have "migrateOne_from cfg en job_id fl start (Suc attempt)
                (sleep (1000 * Suc attempt * Suc attempt) w1) = (r, w')"
          by (simp add: migrateOne_from_retry)
        from "1.IH"[OF True t[symmetric] Inl nle this] b1
        show ?thesis by simp
      qed
    qed
  qed
qed

lemma beat_migrate_batch:
  "migrate_batch cfg en j fs w = (r, w') \<Longrightarrow> beat_view w' = beat_view w"
proof (induction fs arbitrary: w)
  case Nil
  then show ?case by simp
next
  case (Cons f fs)
  obtain r1 w1 where m: "migrateOne cfg en j f w = (r1, w1)"
    by (cases "migrateOne cfg en j f w")
  then have b1: "beat_view w1 = beat_view w"
    unfolding migrateOne_def by (rule beat_migrateOne_from)
  show ?case
  proof (cases r1)
    case (Inl e)
    with Cons.prems m b1 show ?thesis by simp
  next
    case (Inr u)
    with Cons.prems m have "migrate_batch cfg en j fs w1 = (r, w')" by simp
    from Cons.IH[OF this] b1 show ?thesis by simp
  qed
qed

lemma beat_complete_job [simp]: "beat_view (complete_job j w) = beat_view w"
  by (auto simp: complete_job_def round_trip_def emit_def beat_view_def is_heartbeat_def
      comp_def split: list.splits option.splits)

lemma beat_worker_iter:
  "worker_iter cfg en j w = (r, w') \<Longrightarrow> beat_view w' = beat_view w"
  unfolding worker_iter_def
  by (auto split: prod.splits sum.splits if_splits
      dest!: beat_getJob beat_claimBatch beat_migrate_batch)

lemma beat_worker_loop:
  "worker_loop n cfg en j w = Some (r, w') \<Longrightarrow> beat_view w' = beat_view w"
proof (induction n arbitrary: w)
  case 0
  then show ?case by simp
next
  case (Suc n)
  obtain r1 w1 where it: "worker_iter cfg en j w = (r1, w1)"
    by (cases "worker_iter cfg en j w")
  then have b1: "beat_view w1 = beat_view w" by (rule beat_worker_iter)
  show ?case
  proof (cases r1)
    case (Inl e)
    with Suc.prems it b1 show ?thesis by simp
  next
    case (Inr fl)
    show ?thesis
    proof (cases fl)
      case Continue
      with Suc.prems it Inr have "worker_loop n cfg en j w1 = Some (r, w')" by simp
      from Suc.IH[OF this] b1 show ?thesis by simp
    next
      case Break
      with Suc.prems it Inr b1 show ?thesis by simp
    qed
  qed
qed

lemma beat_insert_progress: "insert_progress j w = (r, w') \<Longrightarrow> beat_view w' = beat_view w"
  by (auto simp: insert_progress_def round_trip_def beat_view_def
      split: list.splits option.splits if_splits)

lemma createJob_migrate_beats:
  assumes "createJob_migrate note w = (r, w')"
  shows "filter is_heartbeat (trace w') = filter is_heartbeat (trace w)"
    and "heartbeat_timer w' = heartbeat_timer w"
    and "map j_last_heartbeat (jobs w') = map j_last_heartbeat (jobs w) \<or>
         map j_last_heartbeat (jobs w') = map j_last_heartbeat (jobs w) @ [None]"
proof -
  obtain r1 w1 where ij: "insert_job Migrate note None None w = (r1, w1)"
    by (cases "insert_job Migrate note None None w")
  have v1: "filter is_heartbeat (trace w1) = filter is_heartbeat (trace w) \<and>
            heartbeat_timer w1 = heartbeat_timer w \<and>
            (map j_last_heartbeat (jobs w1) = map j_last_heartbeat (jobs w) \<or>
             map j_last_heartbeat (jobs w1) = map j_last_heartbeat (jobs w) @ [None])"
    using ij by (auto simp: insert_job_def round_trip_def Let_def split: list.splits option.splits)
  have v2: "beat_view w' = beat_view w1"
  proof (cases r1)
    case (Inl e)
    with assms ij show ?thesis by (simp add: createJob_migrate_def)
  next
    case (Inr data)
    with assms ij have "w' = snd (insert_progress (j_id data) w1)"
      by (auto simp: createJob_migrate_def)
    then show ?thesis
      using beat_insert_progress[of "j_id data" w1] by (cases "insert_progress (j_id data) w1") simp
  qed
  from v1 v2 show "filter is_heartbeat (trace w') = filter is_heartbeat (trace w)"
    and "heartbeat_timer w' = heartbeat_timer w"
    and "map j_last_heartbeat (jobs w') = map j_last_heartbeat (jobs w) \<or>
         map j_last_heartbeat (jobs w') = map j_last_heartbeat (jobs w) @ [None]"
    by (auto simp: beat_view_def)
qed

lemma worker_run_example:
  "migrate_run 2 cfg0 en0 (empty_world\<lparr>bunny_file_map := [file_a], next_id := 8\<rparr>) =
     Some (Inr (), migrated_world)"
  by (simp add: migrate_run_def createJob_migrate_def insert_job_def insert_progress_def
      round_trip_def empty_world_def numeral_2_eq_2 worker_iter_def getJob_def emit_def
      claimBatch_def claim_files_to_migrate_def file_cte_def file_a_def cfg0_def en0_def
      migrateOne_def migrateOne_from.simps try_transfer_def streamed_def destPath_def
      logResult_def finalizeFile_def incProgress_def increment_progress_def sleep_def
      complete_job_def migrated_world_def Let_def)

text \<open>
  C7. The worker of a job of either kind is to send a heartbeat at a fixed interval. The
  crawler arms a timer of \<open>HEARTBEAT_MS\<close> and calls \<open>heartbeat\<close> at every turn of its
  loop. The migration worker does neither: whatever the store, the configuration and the
  collaborators, a run of it that ends has called \<open>touch_job\<close> not once, has armed no
  timer, and has left every \<open>last_heartbeat\<close> as it was; the job it creates has none.
\<close>

theorem migration_worker_sends_no_heartbeat:
  assumes "migrate_run fuel cfg en w = Some (r, w')"
  shows "filter is_heartbeat (trace w') = filter is_heartbeat (trace w) \<and>
         heartbeat_timer w' = heartbeat_timer w \<and>
         (map j_last_heartbeat (jobs w') = map j_last_heartbeat (jobs w) \<or>
          map j_last_heartbeat (jobs w') = map j_last_heartbeat (jobs w) @ [None])"
proof -
  obtain r1 w1 where cj: "createJob_migrate ''Concurrent migration worker'' w = (r1, w1)"
    by (cases "createJob_migrate ''Concurrent migration worker'' w")
  note c = createJob_migrate_beats[OF cj]
  show ?thesis
  proof (cases r1)
    case (Inl e)
    with assms cj have "w' = w1" by (simp add: migrate_run_def)
    with c show ?thesis by simp
  next
    case (Inr jb)
    with assms cj have "worker_loop fuel cfg en (j_id jb) w1 = Some (r, w')"
      by (simp add: migrate_run_def)
    from beat_worker_loop[OF this] c show ?thesis by (auto simp: beat_view_def)
  qed
qed

theorem migration_worker_sends_no_heartbeat_witness:
  "migrate_run 2 cfg0 en0 (empty_world\<lparr>bunny_file_map := [file_a], next_id := 8\<rparr>) =
     Some (Inr (), migrated_world) \<and>
   filter is_heartbeat (trace migrated_world) = [] \<and>
   heartbeat_timer migrated_world = None \<and>
   map j_last_heartbeat (jobs migrated_world) = [None]"
  using migration_worker_sends_no_heartbeat[OF worker_run_example] worker_run_example
  by (simp add: empty_world_def) (simp add: migrated_world_def)

section \<open>A transfer that never succeeds\<close>










section \<open>The crawler's loop\<close>

lemma find_touch_job:
  "find (\<lambda>j. j_id j = jid) (touch_job t jid js) =
     map_option (\<lambda>j. j\<lparr>j_last_heartbeat := Some t\<rparr>) (find (\<lambda>j. j_id j = jid) js)"
  by (induction js) (auto simp: touch_job_def)


lemma heartbeat_ok:
  assumes "faults w = []" "current_job w = Some jid"
  shows "heartbeat w = w\<lparr>trace := trace w @ [Heartbeat jid],
                          jobs := touch_job (clock w) jid (jobs w)\<rparr>"
  using assms by (simp add: heartbeat_def round_trip_def emit_def)

lemma getJob_ok:
  assumes "faults w = []" "find (\<lambda>j. j_id j = jid) (jobs w) = Some jb"
  shows "getJob jid w = (Inr jb, w\<lparr>trace := trace w @ [ReadJob jid]\<rparr>)"
  using assms by (simp add: getJob_def round_trip_def emit_def)


lemma claimNextDir_none:
  assumes "faults w = []" "dir_cte (scan_queue w) = []"
  shows "claimNextDir w = (Inr None, w\<lparr>trace := trace w @ [ClaimedDir None]\<rparr>)"
  using assms by (simp add: claimNextDir_def claim_next_dir_def round_trip_def emit_def)







lemma markJob_ok:
  assumes "faults w = []" "current_job w = Some jid"
  shows "markJob st w =
           w\<lparr>trace := trace w @ [MarkedJob st],
             jobs := map (\<lambda>j. if j_id j = jid
                                  then j\<lparr>j_status := st, j_ended_at := Some (clock w)\<rparr>
                                  else j) (jobs w)\<rparr>"
  using assms by (simp add: markJob_def round_trip_def emit_def)

lemma crawl_iter_empty_queue:
  assumes f: "faults w = []" and c: "current_job w = Some jid"
    and j: "find (\<lambda>j. j_id j = jid) (jobs w) = Some jb" and r: "j_status jb = Running"
    and d: "dir_cte (scan_queue w) = []"
  shows "crawl_iter en w =
     (Inr Break,
      w\<lparr>jobs := map (\<lambda>j. if j_id j = jid
                            then j\<lparr>j_status := Completed, j_ended_at := Some (clock w)\<rparr>
                            else j) (touch_job (clock w) jid (jobs w)),
        trace := trace w @ [Heartbeat jid, ReadJob jid, ClaimedDir None, MarkedJob Completed]\<rparr>)"
proof -
  let ?h = "heartbeat w"
  have h: "?h = w\<lparr>trace := trace w @ [Heartbeat jid], jobs := touch_job (clock w) jid (jobs w)\<rparr>"
    using f c by (rule heartbeat_ok)
  have hf: "faults ?h = []" "current_job ?h = Some jid"
    "find (\<lambda>j. j_id j = jid) (jobs ?h) = Some (jb\<lparr>j_last_heartbeat := Some (clock w)\<rparr>)"
    using f c j by (simp_all add: h find_touch_job)
  let ?w1 = "?h\<lparr>trace := trace ?h @ [ReadJob jid]\<rparr>"
  have g: "getJob jid ?h = (Inr (jb\<lparr>j_last_heartbeat := Some (clock w)\<rparr>), ?w1)"
    using hf(1,3) by (rule getJob_ok)
  have w1: "faults ?w1 = []" "dir_cte (scan_queue ?w1) = []"
    using f d by (simp_all add: h)
  let ?w2 = "?w1\<lparr>trace := trace ?w1 @ [ClaimedDir None]\<rparr>"
  have cn: "claimNextDir ?w1 = (Inr None, ?w2)"
    using w1 by (rule claimNextDir_none)
  have w2: "faults ?w2 = []" "current_job ?w2 = Some jid" using f c by (simp_all add: h)
  have it: "crawl_iter en w = (Inr Break, markJob Completed ?w2)"
    unfolding crawl_iter_def using hf(2) g r cn by simp
  show ?thesis
    unfolding it markJob_ok[OF w2] by (simp add: h cong: if_cong)
qed

lemma busy_iter:
  "crawl_iter en0 busy_world =
     (Inr Break,
      busy_world\<lparr>jobs := [job1\<lparr>j_status := Completed, j_last_heartbeat := Some 1000,
                                j_ended_at := Some 1000\<rparr>],
                 trace := [Heartbeat 1, ReadJob 1, ClaimedDir None, MarkedJob Completed]\<rparr>)"
  by (simp add: crawl_iter_def busy_world_def empty_world_def heartbeat_def getJob_def
      round_trip_def emit_def job1_def root_claimed_def touch_job_def claimNextDir_def
      claim_next_dir_def dir_cte_def markJob_def)

text \<open>
  C6. The crawler is to complete the job only after two empty claims in a row with a pause
  between them. Whenever the queue holds no queued row, one turn makes one claim, takes no
  pause, marks the job completed and leaves the loop (\<open>crawl_iter_empty_queue\<close>). So it
  is while another crawler is still listing the root: this crawler's single turn makes
  one claim, the clock stands still, the job is completed and the loop is left.
\<close>

theorem crawler_completes_after_one_empty_claim:
  "fst (crawl_iter en0 busy_world) = Inr Break \<and>
   trace (snd (crawl_iter en0 busy_world)) =
     [Heartbeat 1, ReadJob 1, ClaimedDir None, MarkedJob Completed] \<and>
   map j_status (jobs (snd (crawl_iter en0 busy_world))) = [Completed] \<and>
   map sq_status (scan_queue (snd (crawl_iter en0 busy_world))) = [Claimed] \<and>
   clock (snd (crawl_iter en0 busy_world)) = clock busy_world \<and>
   crawl_loop 1 en0 busy_world = Some (Inr (), snd (crawl_iter en0 busy_world))"
  by (simp add: busy_iter) (simp add: busy_world_def root_claimed_def)

section \<open>The job a crawler works for\<close>











section \<open>Polling the job status\<close>
























lemma sleep_view [simp]:
  "trace (sleep ms w) = trace w @ [Slept ms]" "scan_queue (sleep ms w) = scan_queue w"
  "bunny_file_map (sleep ms w) = bunny_file_map w" "clock (sleep ms w) = clock w + int ms"
  by (simp_all add: sleep_def emit_def)





section \<open>No row is handed to two callers\<close>

lemma sound_dir_ops: "sound_ops dir_ops"
  by (simp add: sound_ops_def dir_ops_def)

lemma sound_file_ops: "sound_ops file_ops"
  by (simp add: sound_ops_def file_ops_def)

lemma inv_initial: "distinct (map (row_id ops) tbl) \<Longrightarrow> claim_inv ops (initial tbl)"
  by (simp add: claim_inv_def initial_def held_def locks_owned_def kept_locked_def
      returned_flipped_def held_apart_def)

subsection \<open>Beginning and skipping\<close>

text \<open>A step that changes nothing but what one caller still has to visit, or that takes
  an idle caller to the start of its walk, keeps every part.\<close>

lemma inv_rewalk:
  assumes inv: "claim_inv ops st"
    and s: "txns st s = Idle \<and> got = [] \<or> (\<exists>todo k. txns st s = Scanning todo got k)"
  shows "claim_inv ops (st\<lparr>txns := (txns st)(s := Scanning todo' got k')\<rparr>)"
proof -
  let ?st = "st\<lparr>txns := (txns st)(s := Scanning todo' got k')\<rparr>"
  have hs: "held ops ?st a = held ops st a" for a
    using s by (auto simp: held_def)
  have lo: "locks_owned ops ?st"
    unfolding locks_owned_def
  proof (intro allI impI)
    fix i t assume "row_lock ?st i = Some t"
    then have l: "row_lock st i = Some t" by simp
    with inv obtain todo g k where g: "txns st t = Scanning todo g k" "i \<in> set (map (row_id ops) g)"
      unfolding claim_inv_def locks_owned_def by blast
    show "\<exists>todo g k. txns ?st t = Scanning todo g k \<and> i \<in> set (map (row_id ops) g)"
    proof (cases "t = s")
      case True
      with g s have "g = got" by auto
      with True g(2) show ?thesis by simp
    next
      case False
      with g show ?thesis by simp
    qed
  qed
  have kl: "kept_locked ops ?st"
    unfolding kept_locked_def
  proof (intro allI impI ballI)
    fix t todo g k r assume t: "txns ?st t = Scanning todo g k" and r: "r \<in> set g"
    show "row_lock ?st (row_id ops r) = Some t"
    proof (cases "t = s")
      case True
      with t have gg: "g = got" by simp
      with r s obtain todo0 k0 where "txns st s = Scanning todo0 got k0" by auto
      with inv r gg True show ?thesis unfolding claim_inv_def kept_locked_def by auto
    next
      case False
      with t have "txns st t = Scanning todo g k" by simp
      with inv r show ?thesis unfolding claim_inv_def kept_locked_def by auto
    qed
  qed
  have rf: "returned_flipped ops ?st"
    using inv unfolding claim_inv_def returned_flipped_def by (auto split: if_splits)
  have ha: "held_apart ops ?st"
    using inv unfolding claim_inv_def held_apart_def hs by blast
  show ?thesis
    using inv lo kl rf ha unfolding claim_inv_def by simp
qed

lemma inv_begin:
  assumes "claim_inv ops st" "txns st s = Idle"
  shows "claim_inv ops (begin_txn ops lim s st)"
  unfolding begin_txn_def using assms by (intro inv_rewalk) simp_all

lemma inv_skip:
  assumes "claim_inv ops st" "txns st s = Scanning (c # cs) got k"
  shows "claim_inv ops (st\<lparr>txns := (txns st)(s := Scanning cs got k)\<rparr>)"
  using assms by (intro inv_rewalk) simp_all

subsection \<open>Locking a row\<close>

lemma inv_lock:
  assumes ops: "sound_ops ops" and inv: "claim_inv ops st"
    and s: "txns st s = Scanning (c # cs) got k"
    and cur: "cur \<in> set (table st)" "row_id ops cur = i" "claimable ops cur"
    and free: "row_lock st i = None \<or> row_lock st i = Some s"
  shows "claim_inv ops (st\<lparr>row_lock := (row_lock st)(i := Some s),
                            txns := (txns st)(s := Scanning cs (got @ [cur]) k')\<rparr>)"
proof -
  let ?st = "st\<lparr>row_lock := (row_lock st)(i := Some s),
                 txns := (txns st)(s := Scanning cs (got @ [cur]) k')\<rparr>"
  from inv have lo0: "locks_owned ops st" and kl0: "kept_locked ops st"
    and rf0: "returned_flipped ops st" and ha0: "held_apart ops st"
    and d0: "distinct (map (row_id ops) (table st))"
    unfolding claim_inv_def by simp_all
  have hs: "held ops ?st s = insert i (held ops st s)"
    using s cur(2) by (auto simp: held_def)
  have ho: "held ops ?st a = held ops st a" if "a \<noteq> s" for a
    using that by (simp add: held_def)
  have fresh: "i \<notin> held ops st b" if "b \<noteq> s" for b
  proof
    assume m: "i \<in> held ops st b"
    show False
    proof (cases "txns st b")
      case Idle
      with m show False by (simp add: held_def)
    next
      case (Scanning todo g n)
      with m obtain r where "r \<in> set g" "row_id ops r = i" by (auto simp: held_def)
      with kl0 Scanning have "row_lock st i = Some b" unfolding kept_locked_def by blast
      with free that show False by auto
    next
      case (Returned rs)
      with m obtain r where "r \<in> set rs" "row_id ops r = i" by (auto simp: held_def)
      with rf0 Returned cur(1,2) have "\<exists>now r0. cur = set_claimed ops now r0"
        unfolding returned_flipped_def by metis
      with ops have "\<not> claimable ops cur" unfolding sound_ops_def by auto
      with cur(3) show False by simp
    qed
  qed
  have lo: "locks_owned ops ?st"
    unfolding locks_owned_def
  proof (intro allI impI)
    fix j t assume l: "row_lock ?st j = Some t"
    show "\<exists>todo g n. txns ?st t = Scanning todo g n \<and> j \<in> set (map (row_id ops) g)"
    proof (cases "j = i")
      case True
      with l have "t = s" by simp
      with True cur(2) show ?thesis by simp
    next
      case False
      with l have "row_lock st j = Some t" by simp
      with lo0 obtain todo g n where g: "txns st t = Scanning todo g n" "j \<in> set (map (row_id ops) g)"
        unfolding locks_owned_def by blast
      show ?thesis
      proof (cases "t = s")
        case True
        with g s have "g = got" by simp
        with True g(2) show ?thesis by simp
      next
        case False
        with g show ?thesis by simp
      qed
    qed
  qed
  have kl: "kept_locked ops ?st"
    unfolding kept_locked_def
  proof (intro allI impI ballI)
    fix t todo g n r assume t: "txns ?st t = Scanning todo g n" and r: "r \<in> set g"
    show "row_lock ?st (row_id ops r) = Some t"
    proof (cases "t = s")
      case True
      with t have "g = got @ [cur]" by simp
      with r have "r \<in> set got \<or> r = cur" by auto
      then show ?thesis
      proof
        assume "r \<in> set got"
        with kl0 s have "row_lock st (row_id ops r) = Some s" unfolding kept_locked_def by blast
        with True show ?thesis by simp
      next
        assume "r = cur"
        with True cur(2) show ?thesis by simp
      qed
    next
      case False
      with t have t0: "txns st t = Scanning todo g n" by simp
      with kl0 r have l: "row_lock st (row_id ops r) = Some t" unfolding kept_locked_def by blast
      have "row_id ops r \<noteq> i"
      proof
        assume "row_id ops r = i"
        with l free False show False by auto
      qed
      with l show ?thesis by simp
    qed
  qed
  have rf: "returned_flipped ops ?st"
    using rf0 unfolding returned_flipped_def by (auto split: if_splits)
  have ha: "held_apart ops ?st"
    unfolding held_apart_def
  proof (intro allI impI)
    fix a b :: nat assume ab: "a \<noteq> b"
    show "held ops ?st a \<inter> held ops ?st b = {}"
    proof (cases "a = s")
      case True
      with ab have b: "b \<noteq> s" by simp
      from ha0 ab True have "held ops st s \<inter> held ops st b = {}" unfolding held_apart_def by blast
      with fresh[OF b] show ?thesis by (simp add: True hs ho[OF b])
    next
      case a: False
      show ?thesis
      proof (cases "b = s")
        case True
        from ha0 ab True have "held ops st a \<inter> held ops st s = {}" unfolding held_apart_def by blast
        with fresh[OF a] show ?thesis by (simp add: True hs ho[OF a])
      next
        case False
        with a ha0 ab show ?thesis unfolding held_apart_def by (simp add: ho)
      qed
    qed
  qed
  show ?thesis
    using d0 lo kl rf ha unfolding claim_inv_def by simp
qed

subsection \<open>Committing\<close>

lemma inv_commit:
  assumes ops: "sound_ops ops" and inv: "claim_inv ops st"
    and s: "txns st s = Scanning todo got k"
  shows "claim_inv ops (commit_txn ops now s got st)"
proof -
  let ?f = "\<lambda>r. if row_id ops r \<in> set (map (row_id ops) got) then set_claimed ops now r else r"
  let ?st = "commit_txn ops now s got st"
  from inv have lo0: "locks_owned ops st" and kl0: "kept_locked ops st"
    and rf0: "returned_flipped ops st" and ha0: "held_apart ops st"
    and d0: "distinct (map (row_id ops) (table st))"
    unfolding claim_inv_def by simp_all
  from ops have nc: "\<not> claimable ops (set_claimed ops now r)"
    and idp: "row_id ops (set_claimed ops now r) = row_id ops r" for r
    unfolding sound_ops_def by simp_all
  have tbl: "table ?st = map ?f (table st)" by (simp add: commit_txn_def)
  have idf: "row_id ops (?f r) = row_id ops r" for r by (simp add: idp)
  have d: "distinct (map (row_id ops) (table ?st))"
    using d0 by (simp add: tbl comp_def idp if_distrib[of "row_id ops"] cong: if_cong)
  have tx: "txns ?st = (txns st)(s := Returned got)" by (simp add: commit_txn_def)
  have lk: "row_lock ?st j = (if row_lock st j = Some s then None else row_lock st j)" for j
    by (simp add: commit_txn_def)
  have hs: "held ops ?st a = held ops st a" for a
    using s by (simp add: held_def tx)
  have lo: "locks_owned ops ?st"
    unfolding locks_owned_def
  proof (intro allI impI)
    fix j t assume l: "row_lock ?st j = Some t"
    then have l0: "row_lock st j = Some t" and ts: "t \<noteq> s"
      by (auto simp: lk split: if_splits)
    from lo0 l0 obtain todo' g n where "txns st t = Scanning todo' g n" "j \<in> set (map (row_id ops) g)"
      unfolding locks_owned_def by blast
    with ts show "\<exists>todo g n. txns ?st t = Scanning todo g n \<and> j \<in> set (map (row_id ops) g)"
      by (simp add: tx)
  qed
  have kl: "kept_locked ops ?st"
    unfolding kept_locked_def
  proof (intro allI impI ballI)
    fix t todo' g n r assume t: "txns ?st t = Scanning todo' g n" and r: "r \<in> set g"
    from t have ts: "t \<noteq> s" by (auto simp: tx split: if_splits)
    with t have "txns st t = Scanning todo' g n" by (simp add: tx)
    with kl0 r have "row_lock st (row_id ops r) = Some t" unfolding kept_locked_def by blast
    with ts show "row_lock ?st (row_id ops r) = Some t" by (simp add: lk)
  qed
  have rf: "returned_flipped ops ?st"
    unfolding returned_flipped_def
  proof (intro allI impI ballI)
    fix t rs r r' assume t: "txns ?st t = Returned rs" and r: "r \<in> set rs"
      and r': "r' \<in> set (table ?st)" and e: "row_id ops r' = row_id ops r"
    from r' obtain r0 where r0: "r0 \<in> set (table st)" "r' = ?f r0" by (auto simp: tbl)
    have e0: "row_id ops r0 = row_id ops r" using e r0(2) idf[of r0] by simp
    show "\<exists>now' r1. r' = set_claimed ops now' r1"
    proof (cases "t = s")
      case True
      with t have "rs = got" by (simp add: tx)
      with r e0 have "row_id ops r0 \<in> set (map (row_id ops) got)" by force
      with r0(2) show ?thesis by auto
    next
      case False
      with t have "txns st t = Returned rs" by (simp add: tx)
      with rf0 r r0(1) e0 have "\<exists>now' r1. r0 = set_claimed ops now' r1"
        unfolding returned_flipped_def by blast
      with r0(2) show ?thesis by auto
    qed
  qed
  have ha: "held_apart ops ?st"
    using ha0 unfolding held_apart_def hs .
  show ?thesis
    using d lo kl rf ha unfolding claim_inv_def by simp
qed

subsection \<open>Any step, any schedule\<close>

lemma inv_visit:
  assumes ops: "sound_ops ops" and inv: "claim_inv ops st" and s: "txns st s = Scanning (c # cs) got k"
  shows "claim_inv ops (visit_row ops s c cs got k st)"
proof (cases "find (\<lambda>r. row_id ops r = row_id ops c) (table st)")
  case None
  then show ?thesis using inv_skip[OF inv s] by (simp add: visit_row_def)
next
  case (Some cur)
  then have cur: "cur \<in> set (table st)" "row_id ops cur = row_id ops c"
    by (auto simp: find_Some_iff)
  show ?thesis
  proof (cases "row_lock st (row_id ops c) \<noteq> None \<and> row_lock st (row_id ops c) \<noteq> Some s")
    case True
    with Some show ?thesis using inv_skip[OF inv s] by (simp add: visit_row_def)
  next
    case free: False
    show ?thesis
    proof (cases "claimable ops cur")
      case False
      with Some free show ?thesis using inv_skip[OF inv s] by (simp add: visit_row_def)
    next
      case True
      from free have "row_lock st (row_id ops c) = None \<or> row_lock st (row_id ops c) = Some s"
        by auto
      from inv_lock[OF ops inv s cur True this, of "k - 1"] Some free True
      show ?thesis by (auto simp: visit_row_def)
    qed
  qed
qed

lemma inv_step:
  assumes "sound_ops ops" "claim_inv ops st"
  shows "claim_inv ops (txn_step ops lim now s st)"
proof (cases "txns st s")
  case Idle
  with assms show ?thesis by (simp add: txn_step_def inv_begin)
next
  case (Scanning todo got k)
  show ?thesis
  proof (cases todo)
    case Nil
    with Scanning assms show ?thesis by (simp add: txn_step_def inv_commit)
  next
    case (Cons c cs)
    with Scanning assms show ?thesis
      by (simp add: txn_step_def inv_commit inv_visit)
  qed
next
  case (Returned rs)
  with assms show ?thesis by (simp add: txn_step_def)
qed

lemma inv_run:
  assumes "sound_ops ops" "claim_inv ops st"
  shows "claim_inv ops (run_schedule ops lim now sched st)"
  using assms(2)
proof (induction sched arbitrary: st)
  case Nil
  then show ?case by simp
next
  case (Cons s sched)
  then show ?case using inv_step[OF assms(1)] by simp
qed

lemma received_held: "set (received ops st s) \<subseteq> held ops st s"
  by (auto simp: received_def held_def split: txn.splits)

lemma inv_received_apart:
  assumes "claim_inv ops st" "a \<noteq> b"
  shows "set (received ops st a) \<inter> set (received ops st b) = {}"
proof -
  from assms have "held ops st a \<inter> held ops st b = {}"
    unfolding claim_inv_def held_apart_def by blast
  with received_held[of ops st a] received_held[of ops st b] show ?thesis by blast
qed

lemma inv_received_flipped:
  assumes "claim_inv ops st" "i \<in> set (received ops st a)" "r \<in> set (table st)" "row_id ops r = i"
  shows "\<exists>now r0. r = set_claimed ops now r0"
proof (cases "txns st a")
  case Idle
  with assms(2) show ?thesis by (simp add: received_def)
next
  case (Scanning todo got k)
  with assms(2) show ?thesis by (simp add: received_def)
next
  case (Returned rs)
  with assms(2) obtain r0 where "r0 \<in> set rs" "row_id ops r0 = i"
    by (auto simp: received_def)
  with assms(1,3,4) Returned show ?thesis unfolding claim_inv_def returned_flipped_def by metis
qed

subsection \<open>A caller alone\<close>

text \<open>With nobody else at the table, the steps of one call add up to the procedure of
  db\_setup.sql run in one go.\<close>

lemma find_by_id:
  assumes "distinct (map key xs)" "c \<in> set xs"
  shows "find (\<lambda>r. key r = key c) xs = Some c"
  using assms
proof (induction xs)
  case Nil
  then show ?case by simp
next
  case (Cons x xs)
  then show ?case by (cases "x = c") (auto simp: image_iff)
qed

lemma run_returned:
  "txns st s = Returned rs \<Longrightarrow> run_schedule ops lim now (replicate n s) st = st"
  by (induction n) (simp_all add: txn_step_def)

lemma walk_alone:
  assumes "distinct (map (row_id ops) (table st))"
    and "txns st s = Scanning todo got k"
    and "\<forall>i. row_lock st i = None \<or> row_lock st i = Some s"
    and "set todo \<subseteq> {r \<in> set (table st). claimable ops r}"
  shows "txns (run_schedule ops lim now (replicate (Suc (length todo)) s) st) s =
           Returned (got @ take k todo) \<and>
         table (run_schedule ops lim now (replicate (Suc (length todo)) s) st) =
           map (\<lambda>r. if row_id ops r \<in> set (map (row_id ops) (got @ take k todo))
                     then set_claimed ops (now s) r else r) (table st)"
  using assms
proof (induction todo arbitrary: st got k)
  case Nil
  then show ?case by (simp add: txn_step_def commit_txn_def)
next
  case (Cons c cs)
  show ?case
  proof (cases "k = 0")
    case True
    let ?st = "commit_txn ops (now s) s got st"
    have step: "txn_step ops lim now s st = ?st" using Cons.prems(2) True by (simp add: txn_step_def)
    have r: "txns ?st s = Returned got" by (simp add: commit_txn_def)
    have "run_schedule ops lim now (replicate (Suc (length (c # cs))) s) st = ?st"
      unfolding replicate_Suc run_schedule.simps step by (rule run_returned[OF r])
    then show ?thesis using True by (simp add: commit_txn_def)
  next
    case False
    then obtain k' where k: "k = Suc k'" by (cases k) auto
    have c: "c \<in> set (table st)" "claimable ops c" using Cons.prems(4) by auto
    have f: "find (\<lambda>r. row_id ops r = row_id ops c) (table st) = Some c"
      using Cons.prems(1) c(1) by (rule find_by_id)
    let ?st = "st\<lparr>row_lock := (row_lock st)(row_id ops c := Some s),
                   txns := (txns st)(s := Scanning cs (got @ [c]) k')\<rparr>"
    have step: "txn_step ops lim now s st = ?st"
      using Cons.prems(2,3) f c(2) k
      by (auto simp: txn_step_def visit_row_def dest: spec[of _ "row_id ops c"])
    have p: "distinct (map (row_id ops) (table ?st))" "txns ?st s = Scanning cs (got @ [c]) k'"
      "\<forall>i. row_lock ?st i = None \<or> row_lock ?st i = Some s"
      "set cs \<subseteq> {r \<in> set (table ?st). claimable ops r}"
      using Cons.prems by auto
    from Cons.IH[OF p] show ?thesis by (simp add: step k)
  qed
qed

lemma call_alone:
  assumes "distinct (map (row_id ops) tbl)"
  shows "\<exists>n. received ops (run_schedule ops lim now (replicate n s) (initial tbl)) s =
             map (row_id ops) (take (lim s) (sort_key (row_path ops) (filter (claimable ops) tbl))) \<and>
           table (run_schedule ops lim now (replicate n s) (initial tbl)) =
             map (\<lambda>r. if row_id ops r \<in> set (map (row_id ops)
                                (take (lim s) (sort_key (row_path ops) (filter (claimable ops) tbl))))
                       then set_claimed ops (now s) r else r) tbl"
proof -
  let ?cands = "sort_key (row_path ops) (filter (claimable ops) tbl)"
  let ?st = "begin_txn ops (lim s) s (initial tbl)"
  have b: "txn_step ops lim now s (initial tbl) = ?st" by (simp add: txn_step_def initial_def)
  have p: "distinct (map (row_id ops) (table ?st))" "txns ?st s = Scanning ?cands [] (lim s)"
    "\<forall>i. row_lock ?st i = None \<or> row_lock ?st i = Some s"
    "set ?cands \<subseteq> {r \<in> set (table ?st). claimable ops r}"
    using assms by (auto simp: begin_txn_def initial_def)
  have t: "table ?st = tbl" by (simp add: begin_txn_def initial_def)
  from walk_alone[OF p, of lim now]
  have "received ops (run_schedule ops lim now (replicate (Suc (Suc (length ?cands))) s) (initial tbl)) s =
             map (row_id ops) (take (lim s) ?cands) \<and>
        table (run_schedule ops lim now (replicate (Suc (Suc (length ?cands))) s) (initial tbl)) =
             map (\<lambda>r. if row_id ops r \<in> set (map (row_id ops) (take (lim s) ?cands))
                       then set_claimed ops (now s) r else r) tbl"
    by (simp add: b t received_def)
  then show ?thesis by blast
qed

lemma claim_next_dir_alone:
  assumes "distinct (map sq_id q)"
  shows "\<exists>n. received dir_ops (run_schedule dir_ops (\<lambda>s. 1) now (replicate n s) (initial q)) s =
               map c_id (fst (claim_next_dir (now s) q)) \<and>
             table (run_schedule dir_ops (\<lambda>s. 1) now (replicate n s) (initial q)) =
               snd (claim_next_dir (now s) q)"
proof -
  from call_alone[of dir_ops q "\<lambda>s. 1" now s] assms obtain n where
    n: "received dir_ops (run_schedule dir_ops (\<lambda>s. 1) now (replicate n s) (initial q)) s =
          map sq_id (take 1 (sort_key sq_path (filter (\<lambda>r. sq_status r = Queued) q)))"
       "table (run_schedule dir_ops (\<lambda>s. 1) now (replicate n s) (initial q)) =
          map (\<lambda>r. if sq_id r \<in> set (map sq_id (take 1 (sort_key sq_path (filter (\<lambda>r. sq_status r = Queued) q))))
                    then r\<lparr>sq_status := Claimed, sq_claimed_at := Some (now s)\<rparr> else r) q"
    by (auto simp: dir_ops_def)
  show ?thesis
    using n by (intro exI[of _ n]) (simp add: claim_next_dir_def dir_cte_def Let_def comp_def)
qed

lemma claim_files_alone:
  assumes "distinct (map f_id b)"
  shows "\<exists>n. received file_ops (run_schedule file_ops lim now (replicate n s) (initial b)) s =
               map fc_id (fst (claim_files_to_migrate (lim s) b)) \<and>
             table (run_schedule file_ops lim now (replicate n s) (initial b)) =
               snd (claim_files_to_migrate (lim s) b)"
proof -
  from call_alone[of file_ops b lim now s] assms obtain n where
    n: "received file_ops (run_schedule file_ops lim now (replicate n s) (initial b)) s =
          map f_id (take (lim s) (sort_key f_path (filter (\<lambda>r. f_status r = Pending \<and> f_is_dir r = False) b)))"
       "table (run_schedule file_ops lim now (replicate n s) (initial b)) =
          map (\<lambda>r. if f_id r \<in> set (map f_id (take (lim s) (sort_key f_path (filter (\<lambda>r. f_status r = Pending \<and> f_is_dir r = False) b))))
                    then r\<lparr>f_status := Scanned\<rparr> else r) b"
    by (auto simp: file_ops_def)
  show ?thesis
    using n by (intro exI[of _ n]) (simp add: claim_files_to_migrate_def file_cte_def Let_def comp_def)
qed

text \<open>
  C1. Let any number of callers run \<open>claim_next_dir\<close>, or \<open>claim_files_to_migrate\<close>
  each with a batch size of its own, against one table with distinct ids, their steps
  interleaved in any order. At every moment no row has been returned to two callers, and
  every row returned to a caller has been flipped by the very call that returned it: it is
  claimed (resp. scanned) and no longer queued (resp. pending).
\<close>

theorem concurrent_claims_never_share_a_row:
  assumes "distinct (map sq_id q)" and "distinct (map f_id b)"
  shows "(a \<noteq> c \<longrightarrow>
            set (received dir_ops (run_schedule dir_ops (\<lambda>s. 1) now sched (initial q)) a) \<inter>
            set (received dir_ops (run_schedule dir_ops (\<lambda>s. 1) now sched (initial q)) c) = {}) \<and>
         (\<forall>r \<in> set (table (run_schedule dir_ops (\<lambda>s. 1) now sched (initial q))).
            sq_id r \<in> set (received dir_ops (run_schedule dir_ops (\<lambda>s. 1) now sched (initial q)) a)
            \<longrightarrow> sq_status r = Claimed) \<and>
         (a \<noteq> c \<longrightarrow>
            set (received file_ops (run_schedule file_ops lim now sched (initial b)) a) \<inter>
            set (received file_ops (run_schedule file_ops lim now sched (initial b)) c) = {}) \<and>
         (\<forall>r \<in> set (table (run_schedule file_ops lim now sched (initial b))).
            f_id r \<in> set (received file_ops (run_schedule file_ops lim now sched (initial b)) a)
            \<longrightarrow> f_status r = Scanned)"
proof -
  let ?D = "run_schedule dir_ops (\<lambda>s. 1) now sched (initial q)"
  let ?F = "run_schedule file_ops lim now sched (initial b)"
  have d: "claim_inv dir_ops ?D"
    using assms(1) by (intro inv_run sound_dir_ops inv_initial) (simp add: dir_ops_def)
  have f: "claim_inv file_ops ?F"
    using assms(2) by (intro inv_run sound_file_ops inv_initial) (simp add: file_ops_def)
  have d1: "a \<noteq> c \<longrightarrow> set (received dir_ops ?D a) \<inter> set (received dir_ops ?D c) = {}"
    using inv_received_apart[OF d] by blast
  have f1: "a \<noteq> c \<longrightarrow> set (received file_ops ?F a) \<inter> set (received file_ops ?F c) = {}"
    using inv_received_apart[OF f] by blast
  have d2: "\<forall>r \<in> set (table ?D). sq_id r \<in> set (received dir_ops ?D a) \<longrightarrow> sq_status r = Claimed"
  proof (intro ballI impI)
    fix r assume "r \<in> set (table ?D)" "sq_id r \<in> set (received dir_ops ?D a)"
    from inv_received_flipped[OF d this(2) this(1)] show "sq_status r = Claimed"
      by (auto simp: dir_ops_def)
  qed
  have f2: "\<forall>r \<in> set (table ?F). f_id r \<in> set (received file_ops ?F a) \<longrightarrow> f_status r = Scanned"
  proof (intro ballI impI)
    fix r assume "r \<in> set (table ?F)" "f_id r \<in> set (received file_ops ?F a)"
    from inv_received_flipped[OF f this(2) this(1)] show "f_status r = Scanned"
      by (auto simp: file_ops_def)
  qed
  from d1 d2 f1 f2 show ?thesis by blast
qed

lemma turns_dirs:
  "received dir_ops (run_schedule dir_ops (\<lambda>s. 1) (\<lambda>s. 5) turns (initial three_dirs)) 0 = [2]"
  "received dir_ops (run_schedule dir_ops (\<lambda>s. 1) (\<lambda>s. 5) turns (initial three_dirs)) 1 = [3]"
  "map sq_status (table (run_schedule dir_ops (\<lambda>s. 1) (\<lambda>s. 5) turns (initial three_dirs))) =
     [Claimed, Claimed, Queued]"
  by code_simp+

lemma turns_files:
  "received file_ops (run_schedule file_ops (\<lambda>s. 2) (\<lambda>s. 5) turns (initial three_files)) 0 = [7, 8]"
  "received file_ops (run_schedule file_ops (\<lambda>s. 2) (\<lambda>s. 5) turns (initial three_files)) 1 = [9]"
  "map f_status (table (run_schedule file_ops (\<lambda>s. 2) (\<lambda>s. 5) turns (initial three_files))) =
     [Scanned, Scanned, Scanned]"
  by code_simp+

theorem concurrent_claims_never_share_a_row_witness:
  "distinct (map sq_id three_dirs) \<and> distinct (map f_id three_files) \<and>
   received dir_ops (run_schedule dir_ops (\<lambda>s. 1) (\<lambda>s. 5) turns (initial three_dirs)) 0 = [2] \<and>
   received dir_ops (run_schedule dir_ops (\<lambda>s. 1) (\<lambda>s. 5) turns (initial three_dirs)) 1 = [3] \<and>
   received file_ops (run_schedule file_ops (\<lambda>s. 2) (\<lambda>s. 5) turns (initial three_files)) 0 = [7, 8] \<and>
   received file_ops (run_schedule file_ops (\<lambda>s. 2) (\<lambda>s. 5) turns (initial three_files)) 1 = [9] \<and>
   set [2] \<inter> set [3] = ({} :: nat set) \<and> set [7, 8] \<inter> set [9] = ({} :: nat set)"
proof -
  have d: "distinct (map sq_id three_dirs)" "distinct (map f_id three_files)"
    by (simp_all add: three_dirs_def three_files_def b_queued_def root_queued_def file_a_def)
  show ?thesis
    using concurrent_claims_never_share_a_row[OF d, of 0 1 "\<lambda>s. 5" turns "\<lambda>s. 2"]
      turns_dirs turns_files d
    by simp
qed

end
